theory Spec2Isabelle
  imports Complex_Main "HOL-Library.Log_Nat"
begin

section \<open>Python values and exceptions\<close>

text \<open>
  The monitor is the class \<open>LVMCacheMonitor\<close> of \<open>cachetop.py\<close>. Python integers are
  unbounded and are modelled by \<open>int\<close>. Python floats are binary64 numbers and are
  modelled as such (next section): every float operation rounds to the nearest
  representable number. An exception is a value of \<open>py_error\<close>; a function that may raise
  returns \<open>py_error + 'a\<close>, with \<open>Inl\<close> for the exception.
\<close>

datatype py_error =
    ZeroDivisionError
  | OverflowError
  | ValueError
  | IndexError
  | CalledProcessError
  | AttributeError
  | OSError
  | TypeError
  | KeyError
  | KeyboardInterrupt

definition and_then :: "py_error + 'a \<Rightarrow> ('a \<Rightarrow> py_error + 'b) \<Rightarrow> py_error + 'b" where
  "and_then m f = (case m of Inl e \<Rightarrow> Inl e | Inr x \<Rightarrow> f x)"

text \<open>\<open>a // b\<close> on integers: floor division, raises on a zero divisor.\<close>

definition floordiv :: "int \<Rightarrow> int \<Rightarrow> py_error + int" where
  "floordiv a b = (if b = 0 then Inl ZeroDivisionError else Inr (a div b))"

section \<open>Binary64 floating point\<close>

text \<open>
  Rounding of a rational to the nearest integer, a tie going to the even one.
\<close>

definition rne :: "rat \<Rightarrow> int" where
  "rne y =
     (let f = \<lfloor>y\<rfloor>; r = y - of_int f
      in if r < 1 / 2 then f else if 1 / 2 < r then f + 1 else if even f then f else f + 1)"

text \<open>
  Binary64 has 53 significant bits and its smallest spacing is \<open>2 ^ -1074\<close>. Counted in
  units of \<open>2 ^ -1074\<close>, a magnitude \<open>s\<close> below \<open>2 ^ 53\<close> is rounded to an integer, and a
  magnitude of \<open>b > 53\<close> bits is rounded to a multiple of \<open>2 ^ (b - 53)\<close>: \<open>quantum\<close> is
  that exponent, \<open>rnd\<close> the rounding in these units and \<open>fl\<close> the rounding of a rational,
  with no bound on the exponent.
\<close>

definition quantum :: "rat \<Rightarrow> nat" where
  "quantum s = nat (bitlen \<lfloor>s\<rfloor> - 53)"

definition rnd :: "rat \<Rightarrow> rat" where
  "rnd s = of_int (rne (s / 2 ^ quantum \<bar>s\<bar>)) * 2 ^ quantum \<bar>s\<bar>"

definition fl :: "rat \<Rightarrow> rat" where
  "fl x = rnd (x * 2 ^ 1074) / 2 ^ 1074"

text \<open>
  A Python float: a finite binary64 number, an infinity or a NaN. A finite float is
  \<open>Fin x\<close> with \<open>x\<close> a binary64 number; every operation below returns such a value, since
  it rounds its result. The two zeros are one value; no operation modelled here tells them
  apart.
\<close>

datatype pyfloat = Fin rat | PInf | NInf | NaN

text \<open>
  The float that an operation returns when its exact result is \<open>x\<close>: the rounded value,
  or an infinity when that is \<open>2 ^ 1024\<close> or more in magnitude.
\<close>

definition fround :: "rat \<Rightarrow> pyfloat" where
  "fround x =
     (let r = fl x
      in if 2 ^ 1024 \<le> r then PInf else if r \<le> - (2 ^ 1024) then NInf else Fin r)"

text \<open>
  An integer operand of a float operation is converted first; the conversion raises
  \<open>OverflowError\<close> for an integer beyond the range of binary64.
\<close>

definition float_of_int :: "int \<Rightarrow> py_error + pyfloat" where
  "float_of_int n =
     (case fround (of_int n) of Fin r \<Rightarrow> Inr (Fin r) | _ \<Rightarrow> Inl OverflowError)"

text \<open>
  \<open>a / b\<close> on two integers: the exact quotient rounded once; \<open>ZeroDivisionError\<close> on a
  zero divisor, \<open>OverflowError\<close> when the result is beyond the range of binary64.
\<close>

definition int_truediv :: "int \<Rightarrow> int \<Rightarrow> py_error + pyfloat" where
  "int_truediv a b =
     (if b = 0 then Inl ZeroDivisionError
      else case fround (of_int a / of_int b) of Fin r \<Rightarrow> Inr (Fin r) | _ \<Rightarrow> Inl OverflowError)"

text \<open>\<open>a * b\<close>, \<open>a - b\<close> and \<open>a / b\<close> on two floats. Only the division can raise.\<close>

fun fmul :: "pyfloat \<Rightarrow> pyfloat \<Rightarrow> pyfloat" where
  "fmul (Fin x) (Fin y) = fround (x * y)"
| "fmul NaN b = NaN"
| "fmul a NaN = NaN"
| "fmul (Fin x) PInf = (if x = 0 then NaN else if 0 < x then PInf else NInf)"
| "fmul (Fin x) NInf = (if x = 0 then NaN else if 0 < x then NInf else PInf)"
| "fmul PInf (Fin y) = (if y = 0 then NaN else if 0 < y then PInf else NInf)"
| "fmul NInf (Fin y) = (if y = 0 then NaN else if 0 < y then NInf else PInf)"
| "fmul PInf PInf = PInf"
| "fmul PInf NInf = NInf"
| "fmul NInf PInf = NInf"
| "fmul NInf NInf = PInf"

fun fsub :: "pyfloat \<Rightarrow> pyfloat \<Rightarrow> pyfloat" where
  "fsub (Fin x) (Fin y) = fround (x - y)"
| "fsub NaN b = NaN"
| "fsub a NaN = NaN"
| "fsub (Fin x) PInf = NInf"
| "fsub (Fin x) NInf = PInf"
| "fsub PInf (Fin y) = PInf"
| "fsub NInf (Fin y) = NInf"
| "fsub PInf PInf = NaN"
| "fsub PInf NInf = PInf"
| "fsub NInf PInf = NInf"
| "fsub NInf NInf = NaN"

fun fquot :: "pyfloat \<Rightarrow> pyfloat \<Rightarrow> pyfloat" where
  "fquot (Fin x) (Fin y) = fround (x / y)"
| "fquot NaN b = NaN"
| "fquot a NaN = NaN"
| "fquot (Fin x) PInf = Fin 0"
| "fquot (Fin x) NInf = Fin 0"
| "fquot PInf (Fin y) = (if 0 \<le> y then PInf else NInf)"
| "fquot NInf (Fin y) = (if 0 \<le> y then NInf else PInf)"
| "fquot PInf PInf = NaN"
| "fquot PInf NInf = NaN"
| "fquot NInf PInf = NaN"
| "fquot NInf NInf = NaN"

definition fdiv :: "pyfloat \<Rightarrow> pyfloat \<Rightarrow> py_error + pyfloat" where
  "fdiv a b = (if b = Fin 0 then Inl ZeroDivisionError else Inr (fquot a b))"

text \<open>\<open>a < b\<close>, \<open>a > b\<close> and \<open>a != b\<close> on floats; a NaN is less than nothing and differs
  from everything.\<close>

fun flt :: "pyfloat \<Rightarrow> pyfloat \<Rightarrow> bool" where
  "flt (Fin x) (Fin y) = (x < y)"
| "flt NaN b = False"
| "flt a NaN = False"
| "flt a NInf = False"
| "flt NInf b = True"
| "flt PInf b = False"
| "flt a PInf = True"

definition fgt :: "pyfloat \<Rightarrow> pyfloat \<Rightarrow> bool" where
  "fgt a b = flt b a"

definition fne :: "pyfloat \<Rightarrow> pyfloat \<Rightarrow> bool" where
  "fne a b = (a = NaN \<or> b = NaN \<or> a \<noteq> b)"

text \<open>
  \<open>int(x)\<close> on a float truncates toward zero; it raises \<open>OverflowError\<close> on an infinity
  and \<open>ValueError\<close> on a NaN.
\<close>

definition int_of :: "rat \<Rightarrow> int" where
  "int_of x = (if x < 0 then \<lceil>x\<rceil> else \<lfloor>x\<rfloor>)"

definition int_of_float :: "pyfloat \<Rightarrow> py_error + int" where
  "int_of_float a =
     (case a of Fin x \<Rightarrow> Inr (int_of x) | NaN \<Rightarrow> Inl ValueError | _ \<Rightarrow> Inl OverflowError)"

section \<open>The metric derivation of \<open>get_lvm_cache_stats\<close>\<close>

text \<open>
  The dictionary returned by \<open>get_lvm_cache_stats\<close>, one field per key.
\<close>

record stats =
  total_blocks :: int
  used_blocks :: int
  dirty_blocks :: int
  cache_usage_pct :: pyfloat
  dirty_ratio_pct :: pyfloat
  hit_ratio_pct :: pyfloat
  read_hit_ratio_pct :: pyfloat
  write_hit_ratio_pct :: pyfloat
  read_hits :: int
  read_misses :: int
  write_hits :: int
  write_misses :: int
  total_reads :: int
  total_writes :: int
  total_ops :: int
  block_size :: int
  pool_size_bytes :: int
  estimated_read_blocks :: int
  estimated_write_blocks :: int

text \<open>
  \<open>except (subprocess.CalledProcessError, ValueError, IndexError): return None\<close>: the three
  exceptions the method catches become the result \<open>None\<close>; any other one propagates.
\<close>

definition except_none :: "py_error + 'a option \<Rightarrow> py_error + 'a option" where
  "except_none r =
     (case r of
        Inl e \<Rightarrow> if e = CalledProcessError \<or> e = ValueError \<or> e = IndexError then Inr None else Inl e
      | Inr v \<Rightarrow> Inr v)"

definition percent :: "pyfloat \<Rightarrow> py_error + pyfloat" where
  "percent q = and_then (float_of_int 100) (\<lambda>c. Inr (fmul q c))"

text \<open>
  \<open>get_lvm_cache_stats\<close> from the point where the two \<open>lvs\<close> commands have answered:
  \<open>pool_size\<close> is the parsed pool size (the local \<open>pool_size_bytes\<close>) and \<open>values\<close>
  the whitespace-separated fields of the second answer, already read as integers. Fewer
  than seven fields fall through the \<open>if\<close> and the method returns \<open>None\<close>. Every division is written with its guard, as in
  the source. \<open>percent\<close> is the product \<open>* 100\<close> of a quotient; the integer \<open>0\<close> of a
  failed guard is the float zero, the same number.
\<close>

definition get_lvm_cache_stats :: "int \<Rightarrow> int list \<Rightarrow> py_error + stats option" where
  "get_lvm_cache_stats pool_size values = except_none
     (if 7 \<le> length values then
        (let total_blocks = values ! 0;
             used_blocks = values ! 1;
             dirty_blocks = values ! 2;
             read_hits = values ! 3;
             read_misses = values ! 4;
             write_hits = values ! 5;
             write_misses = values ! 6
         in
         and_then (if total_blocks > 0 then floordiv pool_size total_blocks else Inr 4096)
           (\<lambda>block_size.
         and_then (if total_blocks > 0
                   then and_then (int_truediv used_blocks total_blocks) percent
                   else Inr (Fin 0))
           (\<lambda>cache_usage_pct.
         and_then (if total_blocks > 0
                   then and_then (int_truediv dirty_blocks total_blocks) percent
                   else Inr (Fin 0))
           (\<lambda>dirty_ratio_pct.
         let total_reads = read_hits + read_misses;
             total_writes = write_hits + write_misses;
             total_ops = total_reads + total_writes
         in
         and_then (if total_ops > 0
                   then and_then (int_truediv (read_hits + write_hits) total_ops) percent
                   else Inr (Fin 0))
           (\<lambda>hit_ratio_pct.
         and_then (if total_reads > 0
                   then and_then (int_truediv read_hits total_reads) percent
                   else Inr (Fin 0))
           (\<lambda>read_hit_ratio_pct.
         and_then (if total_writes > 0
                   then and_then (int_truediv write_hits total_writes) percent
                   else Inr (Fin 0))
           (\<lambda>write_hit_ratio_pct.
         and_then (if total_ops > 0
                   then and_then (int_truediv total_reads total_ops) (\<lambda>read_weight.
                        and_then (int_truediv total_writes total_ops) (\<lambda>write_weight.
                        Inr (read_weight, write_weight)))
                   else Inr (Fin (1 / 2), Fin (1 / 2)))
           (\<lambda>(read_weight, write_weight).
         and_then (and_then (float_of_int used_blocks) (\<lambda>u. int_of_float (fmul u read_weight)))
           (\<lambda>estimated_read_blocks.
         let estimated_write_blocks = used_blocks - estimated_read_blocks
         in
         Inr (Some \<lparr>
           total_blocks = total_blocks,
           used_blocks = used_blocks,
           dirty_blocks = dirty_blocks,
           cache_usage_pct = cache_usage_pct,
           dirty_ratio_pct = dirty_ratio_pct,
           hit_ratio_pct = hit_ratio_pct,
           read_hit_ratio_pct = read_hit_ratio_pct,
           write_hit_ratio_pct = write_hit_ratio_pct,
           read_hits = read_hits,
           read_misses = read_misses,
           write_hits = write_hits,
           write_misses = write_misses,
           total_reads = total_reads,
           total_writes = total_writes,
           total_ops = total_ops,
           block_size = block_size,
           pool_size_bytes = pool_size,
           estimated_read_blocks = estimated_read_blocks,
           estimated_write_blocks = estimated_write_blocks
         \<rparr>))))))))))
      else Inr None)"

text \<open>
  The weight of the reads among \<open>ops\<close> operations, as the derivation computes it: the
  rounded quotient, and one half when there was no operation.
\<close>

definition read_weight_of :: "int \<Rightarrow> int \<Rightarrow> rat" where
  "read_weight_of reads ops = (if 0 < ops then fl (of_int reads / of_int ops) else 1 / 2)"

section \<open>Strings, dictionaries and lists\<close>

text \<open>
  A Python string is a list of Unicode code points, so that the block glyphs of the bars
  count as one cell each. \<open>ascii\<close> reads an ASCII literal; the escape character of the
  colour codes is \<open>ESC\<close>.
\<close>

type_synonym ustr = "nat list"

definition ascii :: "string \<Rightarrow> ustr" where
  "ascii s = map of_char s"

definition ESC :: nat where
  "ESC = 27"

definition SPACE :: nat where
  "SPACE = 32"

text \<open>U+2588 FULL BLOCK, U+2591 LIGHT SHADE and U+25CF BLACK CIRCLE.\<close>

definition FULL_BLOCK :: nat where
  "FULL_BLOCK = 9608"

definition LIGHT_SHADE :: nat where
  "LIGHT_SHADE = 9617"

definition BLACK_CIRCLE :: nat where
  "BLACK_CIRCLE = 9679"

text \<open>\<open>s * n\<close> on a sequence: \<open>n\<close> copies, none when \<open>n\<close> is zero or negative.\<close>

definition seq_mul :: "'a list \<Rightarrow> int \<Rightarrow> 'a list" where
  "seq_mul s n = concat (replicate (nat n) s)"

text \<open>\<open>d[k]\<close> on a dictionary raises \<open>KeyError\<close> on a missing key.\<close>

definition getitem :: "('k \<rightharpoonup> 'v) \<Rightarrow> 'k \<Rightarrow> py_error + 'v" where
  "getitem d k = (case d k of None \<Rightarrow> Inl KeyError | Some v \<Rightarrow> Inr v)"

text \<open>
  \<open>xs[i]\<close> and \<open>xs[i] = v\<close> on a list: a negative index counts from the end, an index
  out of range raises \<open>IndexError\<close>.
\<close>

definition norm_index :: "nat \<Rightarrow> int \<Rightarrow> nat option" where
  "norm_index len i =
     (if 0 \<le> i \<and> i < int len then Some (nat i)
      else if i < 0 \<and> - int len \<le> i then Some (nat (int len + i))
      else None)"

definition list_get :: "'a list \<Rightarrow> int \<Rightarrow> py_error + 'a" where
  "list_get xs i =
     (case norm_index (length xs) i of None \<Rightarrow> Inl IndexError | Some k \<Rightarrow> Inr (xs ! k))"

definition list_set :: "'a list \<Rightarrow> int \<Rightarrow> 'a \<Rightarrow> py_error + 'a list" where
  "list_set xs i v =
     (case norm_index (length xs) i of None \<Rightarrow> Inl IndexError | Some k \<Rightarrow> Inr (xs[k := v]))"

text \<open>\<open>data[-width:]\<close>: the last \<open>width\<close> items for a positive \<open>width\<close>, the whole list
  for \<open>width = 0\<close>, and the list without its first \<open>-width\<close> items for a negative one.\<close>

definition slice_last :: "'a list \<Rightarrow> int \<Rightarrow> 'a list" where
  "slice_last data width =
     (if 0 < width then drop (length data - nat width) data else drop (nat (- width)) data)"

text \<open>
  \<open>min(data)\<close> and \<open>max(data)\<close> raise \<open>ValueError\<close> on an empty sequence; otherwise they
  keep the first item and replace it by each later item that is smaller (larger).
\<close>

definition py_min :: "pyfloat list \<Rightarrow> py_error + pyfloat" where
  "py_min data =
     (case data of [] \<Rightarrow> Inl ValueError
      | x # xs \<Rightarrow> Inr (fold (\<lambda>item best. if flt item best then item else best) xs x))"

definition py_max :: "pyfloat list \<Rightarrow> py_error + pyfloat" where
  "py_max data =
     (case data of [] \<Rightarrow> Inl ValueError
      | x # xs \<Rightarrow> Inr (fold (\<lambda>item best. if fgt item best then item else best) xs x))"

section \<open>The monitor object\<close>

text \<open>
  \<open>collections.deque(maxlen=n)\<close>: a negative \<open>n\<close> raises \<open>ValueError\<close>; \<open>append\<close> adds
  on the right and, when the length then exceeds \<open>maxlen\<close>, discards the leftmost item.
\<close>

record 'a deque =
  maxlen :: nat
  items :: "'a list"

definition deque_new :: "int \<Rightarrow> py_error + 'a deque" where
  "deque_new n = (if n < 0 then Inl ValueError else Inr \<lparr>maxlen = nat n, items = []\<rparr>)"

definition deque_append :: "'a deque \<Rightarrow> 'a \<Rightarrow> 'a deque" where
  "deque_append d x =
     (let xs = items d @ [x]
      in d\<lparr>items := (if maxlen d < length xs then tl xs else xs)\<rparr>)"

text \<open>
  The attributes of \<open>LVMCacheMonitor\<close>. The dictionary \<open>self.colors\<close> is assigned once in
  \<open>__init__\<close> and never again; it is the constant \<open>colors\<close>.
\<close>

record monitor =
  vg_name :: string
  lv_name :: string
  max_history :: int
  cache_usage_history :: "pyfloat deque"
  hit_ratio_history :: "pyfloat deque"
  dirty_ratio_history :: "pyfloat deque"
  read_hit_ratio_history :: "pyfloat deque"
  write_hit_ratio_history :: "pyfloat deque"
  terminal_width :: int
  terminal_height :: int

definition colors :: "string \<rightharpoonup> ustr" where
  "colors =
     [''reset'' \<mapsto> ESC # ascii ''[0m'',
      ''green'' \<mapsto> ESC # ascii ''[92m'',
      ''yellow'' \<mapsto> ESC # ascii ''[93m'',
      ''red'' \<mapsto> ESC # ascii ''[91m'',
      ''blue'' \<mapsto> ESC # ascii ''[94m'',
      ''cyan'' \<mapsto> ESC # ascii ''[96m'',
      ''bold'' \<mapsto> ESC # ascii ''[1m'',
      ''dim'' \<mapsto> ESC # ascii ''[2m'']"

text \<open>
  What the process sees of its terminal when it asks: \<open>environ_int\<close> gives, for each
  variable set in \<open>os.environ\<close>, what \<open>int()\<close> makes of its text (a number, or \<open>None\<close> when
  \<open>int()\<close> raises \<open>ValueError\<close>), and \<open>os_get_terminal_size\<close> is the outcome of
  \<open>os.get_terminal_size(sys.__stdout__.fileno())\<close>, a pair (columns, lines) or an
  exception.
\<close>

record os_env =
  environ_int :: "string \<rightharpoonup> int option"
  os_get_terminal_size :: "py_error + (int \<times> int)"

text \<open>
  \<open>shutil.get_terminal_size()\<close> of the standard library (Python 3.11), with its default
  fallback (80, 24): each dimension is the environment variable when that is a positive
  integer; otherwise the terminal is queried, and a failed query or a dimension of zero
  gives the fallback.
\<close>

definition environ_or_zero :: "os_env \<Rightarrow> string \<Rightarrow> int" where
  "environ_or_zero os name =
     (case environ_int os name of None \<Rightarrow> 0 | Some None \<Rightarrow> 0 | Some (Some n) \<Rightarrow> n)"

definition shutil_get_terminal_size :: "os_env \<Rightarrow> py_error + (int \<times> int)" where
  "shutil_get_terminal_size os =
     (let columns = environ_or_zero os ''COLUMNS'';
          lines = environ_or_zero os ''LINES''
      in if columns \<le> 0 \<or> lines \<le> 0 then
           and_then
             (case os_get_terminal_size os of
                Inl e \<Rightarrow>
                  if e = AttributeError \<or> e = ValueError \<or> e = OSError then Inr (80, 24)
                  else Inl e
              | Inr measured \<Rightarrow> Inr measured)
             (\<lambda>(size_columns, size_lines).
                let columns = (if columns \<le> 0
                               then (if size_columns \<noteq> 0 then size_columns else 80)
                               else columns);
                    lines = (if lines \<le> 0
                             then (if size_lines \<noteq> 0 then size_lines else 24)
                             else lines)
                in Inr (columns, lines))
         else Inr (columns, lines))"

text \<open>\<open>int(os.environ.get(name, default))\<close>.\<close>

definition int_environ_get :: "os_env \<Rightarrow> string \<Rightarrow> int \<Rightarrow> py_error + int" where
  "int_environ_get os name dflt =
     (case environ_int os name of
        None \<Rightarrow> Inr dflt | Some None \<Rightarrow> Inl ValueError | Some (Some n) \<Rightarrow> Inr n)"

definition update_terminal_size :: "os_env \<Rightarrow> monitor \<Rightarrow> py_error + monitor" where
  "update_terminal_size os self =
     (case shutil_get_terminal_size os of
        Inr (columns, lines) \<Rightarrow> Inr (self\<lparr>terminal_width := columns, terminal_height := lines\<rparr>)
      | Inl e \<Rightarrow>
          if e = AttributeError \<or> e = OSError then
            (case and_then (int_environ_get os ''COLUMNS'' 80) (\<lambda>w.
                  and_then (int_environ_get os ''LINES'' 24) (\<lambda>h. Inr (w, h))) of
               Inr (w, h) \<Rightarrow> Inr (self\<lparr>terminal_width := w, terminal_height := h\<rparr>)
             | Inl e' \<Rightarrow>
                 if e' = ValueError \<or> e' = TypeError
                 then Inr (self\<lparr>terminal_width := 80, terminal_height := 24\<rparr>)
                 else Inl e')
          else Inl e)"

text \<open>\<open>__init__\<close>: five empty bounded series, the size 80x24, then the first size update.\<close>

definition init :: "os_env \<Rightarrow> string \<Rightarrow> string \<Rightarrow> int \<Rightarrow> py_error + monitor" where
  "init os vg lv max_hist =
     and_then (deque_new max_hist) (\<lambda>d1.
     and_then (deque_new max_hist) (\<lambda>d2.
     and_then (deque_new max_hist) (\<lambda>d3.
     and_then (deque_new max_hist) (\<lambda>d4.
     and_then (deque_new max_hist) (\<lambda>d5.
     update_terminal_size os
       \<lparr>vg_name = vg, lv_name = lv, max_history = max_hist,
        cache_usage_history = d1, hit_ratio_history = d2, dirty_ratio_history = d3,
        read_hit_ratio_history = d4, write_hit_ratio_history = d5,
        terminal_width = 80, terminal_height = 24\<rparr>)))))"

text \<open>
  \<open>get_dynamic_widths\<close> returns the dictionary of widths, and the monitor with its
  refreshed terminal size.
\<close>

definition get_dynamic_widths :: "os_env \<Rightarrow> monitor \<Rightarrow> py_error + ((string \<rightharpoonup> int) \<times> monitor)" where
  "get_dynamic_widths os self =
     and_then (update_terminal_size os self) (\<lambda>self.
     let label_space = 20;
         percentage_space = 8;
         margin = 4;
         bar_width = max 20 (terminal_width self - label_space - percentage_space - margin);
         graph_label_space = 8;
         graph_margin = 4;
         graph_width = max 30 (terminal_width self - graph_label_space - graph_margin)
     in Inr ([''bar_width'' \<mapsto> bar_width,
              ''graph_width'' \<mapsto> graph_width,
              ''terminal_width'' \<mapsto> terminal_width self], self))"

text \<open>\<open>if width is None: width = self.get_dynamic_widths()[key]\<close>.\<close>

definition default_width :: "os_env \<Rightarrow> monitor \<Rightarrow> string \<Rightarrow> int option \<Rightarrow> py_error + (int \<times> monitor)" where
  "default_width os self key width =
     (case width of
        None \<Rightarrow> and_then (get_dynamic_widths os self) (\<lambda>(widths, self).
                 and_then (getitem widths key) (\<lambda>w. Inr (w, self)))
      | Some w \<Rightarrow> Inr (w, self))"

section \<open>Bars and line charts\<close>

text \<open>
  The filled cell count of the single bar, lines 186 to 189 of the source. The value and
  the maximum are floats; an integer argument such as the 100 of the callers is given as
  the float of the same value, which every integer of magnitude up to \<open>2 ^ 53\<close> has.
\<close>

definition bar_filled :: "pyfloat \<Rightarrow> pyfloat \<Rightarrow> int \<Rightarrow> py_error + int" where
  "bar_filled value max_value width =
     (if \<not> fne max_value (Fin 0) then Inr 0
      else and_then (fdiv value max_value) (\<lambda>q.
           and_then (float_of_int width) (\<lambda>w.
           int_of_float (fmul q w))))"

definition create_bar_graph ::
  "os_env \<Rightarrow> monitor \<Rightarrow> pyfloat \<Rightarrow> pyfloat \<Rightarrow> int option \<Rightarrow> string \<Rightarrow> py_error + (ustr \<times> monitor)" where
  "create_bar_graph os self value max_value width color =
     and_then (default_width os self ''bar_width'' width) (\<lambda>(width, self).
     and_then (bar_filled value max_value width) (\<lambda>filled.
     let bar = seq_mul [FULL_BLOCK] filled @ seq_mul [LIGHT_SHADE] (width - filled);
         color_code = (case colors color of None \<Rightarrow> [] | Some c \<Rightarrow> c)
     in and_then (getitem colors ''reset'') (\<lambda>reset.
        Inr (color_code @ bar @ reset, self))))"

text \<open>
  The cell counts of the dual bar, lines 206 to 218 of the source: the two proportions,
  the correction when they exceed the width, and the empty rest. The result is
  (read_portion, write_portion, empty_portion).
\<close>

definition dual_portions :: "int \<Rightarrow> int \<Rightarrow> int \<Rightarrow> int \<Rightarrow> py_error + (int \<times> int \<times> int)" where
  "dual_portions read_blocks write_blocks total_blocks' width =
     and_then (and_then (int_truediv read_blocks total_blocks') (\<lambda>q.
               and_then (float_of_int width) (\<lambda>w. int_of_float (fmul q w))))
       (\<lambda>read_portion.
     and_then (and_then (int_truediv write_blocks total_blocks') (\<lambda>q.
               and_then (float_of_int width) (\<lambda>w. int_of_float (fmul q w))))
       (\<lambda>write_portion.
     let used_portion = read_portion + write_portion;
         (read_portion, write_portion, used_portion) =
           (if width < used_portion then
              (if write_portion \<le> read_portion
               then (let read_portion = width - write_portion
                     in (read_portion, write_portion, read_portion + write_portion))
               else (let write_portion = width - read_portion
                     in (read_portion, write_portion, read_portion + write_portion)))
            else (read_portion, write_portion, used_portion));
         empty_portion = width - used_portion
     in Inr (read_portion, write_portion, empty_portion)))"

definition create_dual_cache_bar ::
  "os_env \<Rightarrow> monitor \<Rightarrow> int \<Rightarrow> int \<Rightarrow> int \<Rightarrow> int option \<Rightarrow> py_error + (ustr \<times> monitor)" where
  "create_dual_cache_bar os self read_blocks write_blocks total_blocks' width =
     and_then (default_width os self ''bar_width'' width) (\<lambda>(width, self).
     if total_blocks' = 0 then Inr (seq_mul [LIGHT_SHADE] width, self)
     else
       and_then (dual_portions read_blocks write_blocks total_blocks' width)
         (\<lambda>(read_portion, write_portion, empty_portion).
       and_then (getitem colors ''green'') (\<lambda>green.
       and_then (getitem colors ''red'') (\<lambda>red.
       and_then (getitem colors ''reset'') (\<lambda>reset.
       let read_bar = green @ seq_mul [FULL_BLOCK] read_portion @ reset;
           write_bar = red @ seq_mul [FULL_BLOCK] write_portion @ reset;
           empty_bar = seq_mul [LIGHT_SHADE] empty_portion
       in Inr (read_bar @ write_bar @ empty_bar, self))))))"

text \<open>
  The row of a value in the chart, lines 252 and 253 of the source: the value is scaled
  into the height, counted from the bottom row, and clamped.
\<close>

definition plot_row :: "int \<Rightarrow> pyfloat \<Rightarrow> pyfloat \<Rightarrow> pyfloat \<Rightarrow> py_error + int" where
  "plot_row height min_val range_val v =
     and_then (fdiv (fsub v min_val) range_val) (\<lambda>q.
     and_then (float_of_int (height - 1)) (\<lambda>h.
     and_then (int_of_float (fmul q h)) (\<lambda>n.
     let y = height - 1 - n;
         y = max 0 (min (height - 1) y)
     in Inr y)))"

text \<open>
  The plotting loop of \<open>create_line_graph\<close>: \<open>i\<close> is the column given by \<open>enumerate\<close>, the
  list holds the values still to plot, \<open>lines\<close> are the rows drawn so far.
\<close>

fun plot_points ::
  "int \<Rightarrow> int \<Rightarrow> pyfloat \<Rightarrow> pyfloat \<Rightarrow> nat \<Rightarrow> pyfloat list \<Rightarrow> ustr list \<Rightarrow> py_error + ustr list" where
  "plot_points width height min_val range_val i [] lines = Inr lines"
| "plot_points width height min_val range_val i (v # rest) lines =
     (let x = int i in
      if width \<le> x then Inr lines
      else
        and_then (plot_row height min_val range_val v) (\<lambda>y.
        and_then (list_get lines y) (\<lambda>line_list.
        and_then (list_set line_list x BLACK_CIRCLE) (\<lambda>line_list.
        and_then (list_set lines y line_list) (\<lambda>lines.
        plot_points width height min_val range_val (Suc i) rest lines)))))"

text \<open>
  The series holds floats; an integer item (the \<open>0\<close> of a failed guard) is given as the
  float of the same value.
\<close>

definition create_line_graph ::
  "os_env \<Rightarrow> monitor \<Rightarrow> pyfloat list \<Rightarrow> int option \<Rightarrow> int \<Rightarrow> py_error + (ustr list \<times> monitor)" where
  "create_line_graph os self data width height =
     and_then (default_width os self ''graph_width'' width) (\<lambda>(width, self).
     if data = [] \<or> length data < 2 then Inr (seq_mul [[]] height, self)
     else
       and_then (py_min data) (\<lambda>min_val.
       and_then (py_max data) (\<lambda>max_val.
       let range_val = (if fne max_val min_val then fsub max_val min_val else Fin 1);
           lines = map (\<lambda>_. seq_mul [SPACE] width) [0..<nat height]
       in and_then (plot_points width height min_val range_val 0 (slice_last data width) lines)
            (\<lambda>lines. Inr (lines, self)))))"

section \<open>The monitoring loop\<close>

text \<open>
  \<open>display_stats\<close> prints lines; the model returns them. Without statistics it prints the
  two lines of the error message and returns. The frame it draws from statistics (from
  \<open>clear_screen\<close> on) is the parameter \<open>full_frame\<close>: it gives the lines printed, the
  terminal size that the calls of \<open>get_dynamic_widths\<close> leave in the monitor, the only
  attributes that part of the method assigns, and the exception that ended the drawing,
  if one did. A result \<open>Inl\<close> is an exception together with the lines printed before it
  and the monitor as the method left it.
\<close>

type_synonym frame_fn = "monitor \<Rightarrow> stats \<Rightarrow> ustr list \<times> int \<times> int \<times> py_error option"

definition display_stats ::
  "frame_fn \<Rightarrow> monitor \<Rightarrow> stats option
     \<Rightarrow> (py_error \<times> ustr list \<times> monitor) + (ustr list \<times> monitor)" where
  "display_stats full_frame self stats =
     (case stats of
        None \<Rightarrow>
          (case and_then (getitem colors ''red'') (\<lambda>red.
                and_then (getitem colors ''reset'') (\<lambda>reset.
                Inr [red @ ascii ''Error: Could not retrieve LVM cache statistics'' @ reset,
                     ascii ''Make sure the volume group and logical volume exist and you have sudo privileges.''])) of
             Inl e \<Rightarrow> Inl (e, [], self)
           | Inr printed \<Rightarrow> Inr (printed, self))
      | Some s \<Rightarrow>
          (case full_frame self s of
             (printed, columns, lines, raised) \<Rightarrow>
               (let self = self\<lparr>terminal_width := columns, terminal_height := lines\<rparr>
                in case raised of
                     None \<Rightarrow> Inr (printed, self)
                   | Some e \<Rightarrow> Inl (e, printed, self))))"

text \<open>The five appends of \<open>run\<close>, done when the poll gave statistics.\<close>

definition store_history :: "monitor \<Rightarrow> stats \<Rightarrow> monitor" where
  "store_history self s =
     self\<lparr>cache_usage_history := deque_append (cache_usage_history self) (cache_usage_pct s),
          hit_ratio_history := deque_append (hit_ratio_history self) (hit_ratio_pct s),
          dirty_ratio_history := deque_append (dirty_ratio_history self) (dirty_ratio_pct s),
          read_hit_ratio_history := deque_append (read_hit_ratio_history self) (read_hit_ratio_pct s),
          write_hit_ratio_history := deque_append (write_hit_ratio_history self) (write_hit_ratio_pct s)\<rparr>"

text \<open>One pass through the body of \<open>while True\<close>, given what the poll returned.\<close>

definition loop_body ::
  "frame_fn \<Rightarrow> monitor \<Rightarrow> stats option
     \<Rightarrow> (py_error \<times> ustr list \<times> monitor) + (ustr list \<times> monitor)" where
  "loop_body full_frame self stats =
     (let self = (case stats of None \<Rightarrow> self | Some s \<Rightarrow> store_history self s)
      in display_stats full_frame self stats)"

text \<open>
  How \<open>run\<close> ends on an exception, \<open>printed\<close> being the lines the failing pass had
  printed: a \<open>KeyboardInterrupt\<close> is caught, the closing line is printed and the process
  exits with status 0; any other exception leaves \<open>run\<close>.
\<close>

datatype ending = Still_running | SystemExit int | Raised py_error

definition interrupted :: "py_error \<Rightarrow> ustr list \<Rightarrow> monitor \<Rightarrow> ustr list list \<times> monitor \<times> ending" where
  "interrupted e printed self =
     (if e = KeyboardInterrupt then
        (case and_then (getitem colors ''cyan'') (\<lambda>cyan.
              and_then (getitem colors ''reset'') (\<lambda>reset.
              Inr (10 # cyan @ ascii ''Monitoring stopped.'' @ reset))) of
           Inr line \<Rightarrow> ([printed @ [line]], self, SystemExit 0)
         | Inl e' \<Rightarrow> ([printed], self, Raised e'))
      else ([printed], self, Raised e))"

text \<open>
  The loop of \<open>run\<close> over the polls observed so far: each poll either returns (statistics
  or \<open>None\<close>) or raises. The loop has no exit of its own; it ends on an exception, and
  the monitor then holds what the failing pass had stored. When the observed polls are
  used up the loop is still running. The result is the lines printed, pass by pass, the
  monitor and the way the loop ended. The three lines printed before the loop are left
  out, and the refresh interval is taken to be one that \<open>time.sleep\<close> accepts.
\<close>

fun run :: "frame_fn \<Rightarrow> monitor \<Rightarrow> (py_error + stats option) list
     \<Rightarrow> ustr list list \<times> monitor \<times> ending" where
  "run full_frame self [] = ([], self, Still_running)"
| "run full_frame self (poll # polls) =
     (case poll of
        Inl e \<Rightarrow> interrupted e [] self
      | Inr stats \<Rightarrow>
          (case loop_body full_frame self stats of
             Inl (e, printed, self) \<Rightarrow> interrupted e printed self
           | Inr (frame, self) \<Rightarrow>
               (case run full_frame self polls of
                  (frames, self, r) \<Rightarrow> (frame # frames, self, r))))"

section \<open>What the terminal shows, and a monitor to run examples on\<close>

text \<open>
  The cells of a string that the terminal shows: a colour code, from \<open>ESC\<close> up to its
  final letter \<open>m\<close> (code point 109), takes no cell. The flag says whether the reader is
  inside a colour code.
\<close>

fun visible :: "bool \<Rightarrow> ustr \<Rightarrow> ustr" where
  "visible inside [] = []"
| "visible inside (c # cs) =
     (if inside then (if c = 109 then visible False cs else visible True cs)
      else if c = ESC then visible True cs
      else c # visible False cs)"

text \<open>
  The monitor that \<open>LVMCacheMonitor()\<close> builds with its default arguments on a terminal
  of 80 columns and 24 lines, and that terminal.
\<close>

definition terminal_80x24 :: os_env where
  "terminal_80x24 = \<lparr>environ_int = Map.empty, os_get_terminal_size = Inr (80, 24)\<rparr>"

definition default_monitor :: monitor where
  "default_monitor =
     \<lparr>vg_name = ''vg_games'', lv_name = ''games'', max_history = 60,
      cache_usage_history = \<lparr>maxlen = 60, items = []\<rparr>,
      hit_ratio_history = \<lparr>maxlen = 60, items = []\<rparr>,
      dirty_ratio_history = \<lparr>maxlen = 60, items = []\<rparr>,
      read_hit_ratio_history = \<lparr>maxlen = 60, items = []\<rparr>,
      write_hit_ratio_history = \<lparr>maxlen = 60, items = []\<rparr>,
      terminal_width = 80, terminal_height = 24\<rparr>"

text \<open>
  The row of a value as the specification words it, in exact arithmetic: the value less
  the minimum of the series, over the range (1 when the series is constant), times
  \<open>height - 1\<close>, floored, counted down from the bottom row \<open>height - 1\<close> and clamped to the
  rows of the chart.
\<close>

definition chart_row :: "rat list \<Rightarrow> int \<Rightarrow> rat \<Rightarrow> int" where
  "chart_row data height v =
     (let min_val = Min (set data);
          max_val = Max (set data);
          range = (if max_val = min_val then 1 else max_val - min_val)
      in max 0 (min (height - 1)
           (height - 1 - \<lfloor>(v - min_val) / range * of_int (height - 1)\<rfloor>)))"

text \<open>
  The same row in binary64 arithmetic: the two differences, the quotient and the product
  are each rounded to the nearest binary64 number.
\<close>

definition chart_row_binary64 :: "rat list \<Rightarrow> int \<Rightarrow> rat \<Rightarrow> int" where
  "chart_row_binary64 data height v =
     (let min_val = Min (set data);
          max_val = Max (set data);
          range = (if max_val = min_val then 1 else fl (max_val - min_val))
      in max 0 (min (height - 1)
           (height - 1 - \<lfloor>fl (fl (fl (v - min_val) / range) * of_int (height - 1))\<rfloor>)))"

text \<open>
  The numbers of a series: binary64 numbers of magnitude at most \<open>2 ^ 1022\<close>, so that the
  difference of two of them is within the range of binary64.
\<close>

definition finite_double :: "rat \<Rightarrow> bool" where
  "finite_double x \<longleftrightarrow> fl x = x \<and> \<bar>x\<bar> \<le> 2 ^ 1022"

text \<open>
  The two lines \<open>display_stats\<close> prints when it is given no statistics.
\<close>

definition error_frame :: "ustr list" where
  "error_frame =
     [ESC # ascii ''[91m'' @ ascii ''Error: Could not retrieve LVM cache statistics'' @ ESC # ascii ''[0m'',
      ascii ''Make sure the volume group and logical volume exist and you have sudo privileges.'']"

text \<open>
  The statistics of a cache that has seen no traffic: what \<open>get_lvm_cache_stats\<close>
  returns when every counter and the pool size are zero.
\<close>

definition idle_stats :: stats where
  "idle_stats =
     \<lparr>total_blocks = 0, used_blocks = 0, dirty_blocks = 0,
      cache_usage_pct = Fin 0, dirty_ratio_pct = Fin 0, hit_ratio_pct = Fin 0,
      read_hit_ratio_pct = Fin 0, write_hit_ratio_pct = Fin 0,
      read_hits = 0, read_misses = 0, write_hits = 0, write_misses = 0,
      total_reads = 0, total_writes = 0, total_ops = 0,
      block_size = 4096, pool_size_bytes = 0,
      estimated_read_blocks = 0, estimated_write_blocks = 0\<rparr>"

text \<open>
  The five series of a monitor all have the capacity \<open>cap\<close> and hold no more than that.
\<close>

definition series_bounded :: "monitor \<Rightarrow> nat \<Rightarrow> bool" where
  "series_bounded self cap =
     (maxlen (cache_usage_history self) = cap \<and> length (items (cache_usage_history self)) \<le> cap
    \<and> maxlen (hit_ratio_history self) = cap \<and> length (items (hit_ratio_history self)) \<le> cap
    \<and> maxlen (dirty_ratio_history self) = cap \<and> length (items (dirty_ratio_history self)) \<le> cap
    \<and> maxlen (read_hit_ratio_history self) = cap \<and> length (items (read_hit_ratio_history self)) \<le> cap
    \<and> maxlen (write_hit_ratio_history self) = cap \<and> length (items (write_hit_ratio_history self)) \<le> cap)"

section \<open>Rounding to binary64\<close>

lemma rne_of_int [simp]: "rne (of_int n) = n"
  by (simp add: rne_def)

lemma rne_bounds: "\<lfloor>y\<rfloor> \<le> rne y" "rne y \<le> \<lfloor>y\<rfloor> + 1"
  by (simp_all add: rne_def Let_def)

lemma rne_mono:
  assumes "y \<le> z"
  shows "rne y \<le> rne z"
proof (cases "\<lfloor>y\<rfloor> = \<lfloor>z\<rfloor>")
  case True
  have "y - of_int \<lfloor>z\<rfloor> \<le> z - of_int \<lfloor>z\<rfloor>" using assms by simp
  then show ?thesis using True by (auto simp: rne_def Let_def)
next
  case False
  with assms have "\<lfloor>y\<rfloor> < \<lfloor>z\<rfloor>" using floor_mono [OF assms] by linarith
  then have "rne y \<le> \<lfloor>z\<rfloor>" using rne_bounds(2) [of y] by linarith
  then show ?thesis using rne_bounds(1) [of z] by linarith
qed

lemma rne_zero [simp]: "rne 0 = 0"
  by (simp add: rne_def)

lemma rne_nonneg: "0 \<le> y \<Longrightarrow> 0 \<le> rne y"
  using rne_mono [of 0 y] by simp

lemma nat_int_add53: "nat (int k + 53) = k + 53" "nat (int k + 53) - Suc 0 = k + 52"
  by (simp_all add: nat_add_distrib)

lemma quantum_upper:
  assumes "0 \<le> s"
  shows "s < 2 ^ (quantum s + 53)"
proof -
  have "bitlen \<lfloor>s\<rfloor> \<le> int (quantum s + 53)" by (simp add: quantum_def)
  then have "\<lfloor>s\<rfloor> < 2 ^ (quantum s + 53)"
    unfolding bitlen_le_iff_power by (simp add: nat_int_add53)
  then have "\<lfloor>s\<rfloor> < \<lfloor>(2::rat) ^ (quantum s + 53)\<rfloor>"
    by (simp add: floor_power)
  then show ?thesis by (simp add: floor_less_cancel)
qed

lemma quantum_lower:
  assumes "0 < quantum s"
  shows "2 ^ (quantum s + 52) \<le> s"
proof -
  from assms have "int (quantum s + 53) \<le> bitlen \<lfloor>s\<rfloor>" by (simp add: quantum_def)
  then have "2 ^ (quantum s + 52) \<le> \<lfloor>s\<rfloor>"
    unfolding bitlen_ge_iff_power by (simp add: nat_int_add53 add.commute)
  then have "of_int (2 ^ (quantum s + 52)) \<le> (of_int \<lfloor>s\<rfloor> :: rat)" by (simp only: of_int_le_iff)
  also have "\<dots> \<le> s" by simp
  finally show ?thesis by simp
qed

lemma quantum_mono:
  assumes "s \<le> t"
  shows "quantum s \<le> quantum t"
proof -
  have "\<lfloor>s\<rfloor> \<le> \<lfloor>t\<rfloor>" using assms by (rule floor_mono)
  then have "bitlen \<lfloor>s\<rfloor> \<le> bitlen \<lfloor>t\<rfloor>"
    by (simp add: bitlen_def floorlog_mono nat_mono)
  then show ?thesis by (simp add: quantum_def)
qed

lemma quantum_le:
  assumes "s < 2 ^ (k + 53)"
  shows "quantum s \<le> k"
proof -
  have "\<lfloor>s\<rfloor> < 2 ^ (k + 53)"
  proof -
    have "of_int \<lfloor>s\<rfloor> \<le> s" by simp
    also note assms
    finally have "(of_int \<lfloor>s\<rfloor> :: rat) < of_int (2 ^ (k + 53))" by simp
    then show ?thesis by (simp only: of_int_less_iff)
  qed
  then have "bitlen \<lfloor>s\<rfloor> \<le> int (k + 53)"
    unfolding bitlen_le_iff_power by (simp add: nat_int_add53)
  then show ?thesis by (simp add: quantum_def)
qed

lemma quantum_ge:
  assumes "2 ^ (k + 52) \<le> s"
  shows "k \<le> quantum s"
proof -
  have "(2::int) ^ (k + 52) \<le> \<lfloor>s\<rfloor>"
    using assms by (simp add: le_floor_iff)
  then have "int (k + 53) \<le> bitlen \<lfloor>s\<rfloor>"
    unfolding bitlen_ge_iff_power by (simp add: nat_int_add53 add.commute)
  then show ?thesis by (simp add: quantum_def)
qed

lemma quantum_eq:
  assumes "2 ^ (k + 52) \<le> s" "s < 2 ^ (k + 53)"
  shows "quantum s = k"
  using quantum_le [OF assms(2)] quantum_ge [OF assms(1)] by simp

lemma quantum_small:
  assumes "s < 2 ^ 53"
  shows "quantum s = 0"
  using quantum_le [of s 0] assms by simp

lemma rnd_nonneg_def: "0 \<le> s \<Longrightarrow> rnd s = of_int (rne (s / 2 ^ quantum s)) * 2 ^ quantum s"
  by (simp add: rnd_def)

lemma rnd_nonneg:
  assumes "0 \<le> s"
  shows "0 \<le> rnd s"
proof -
  have "0 \<le> s / 2 ^ quantum s" using assms by simp
  then have "0 \<le> rne (s / 2 ^ quantum s)" by (rule rne_nonneg)
  then show ?thesis unfolding rnd_nonneg_def [OF assms] by simp
qed

lemma rnd_upper:
  assumes "0 \<le> s"
  shows "rnd s \<le> 2 ^ (quantum s + 53)"
proof -
  let ?k = "quantum s"
  have "s / 2 ^ ?k \<le> 2 ^ 53"
    using quantum_upper [OF assms] by (simp add: divide_le_eq power_add mult.commute)
  then have "rne (s / 2 ^ ?k) \<le> rne (of_int (2 ^ 53))"
    using rne_mono [of "s / 2 ^ ?k" "of_int (2 ^ 53)"] by simp
  then have "rne (s / 2 ^ ?k) \<le> 2 ^ 53" by (simp only: rne_of_int)
  then have "(of_int (rne (s / 2 ^ ?k)) :: rat) \<le> of_int (2 ^ 53)" by (simp only: of_int_le_iff)
  then have "(of_int (rne (s / 2 ^ ?k)) :: rat) * 2 ^ ?k \<le> of_int (2 ^ 53) * 2 ^ ?k"
    by (intro mult_right_mono) simp_all
  then show ?thesis unfolding rnd_nonneg_def [OF assms] by (simp add: power_add mult.commute)
qed

lemma rnd_lower:
  assumes "0 \<le> s" "0 < quantum s"
  shows "2 ^ (quantum s + 52) \<le> rnd s"
proof -
  let ?k = "quantum s"
  have "2 ^ 52 \<le> s / 2 ^ ?k"
    using quantum_lower [OF assms(2)] by (simp add: le_divide_eq power_add mult.commute)
  then have "rne (of_int (2 ^ 52)) \<le> rne (s / 2 ^ ?k)"
    using rne_mono [of "of_int (2 ^ 52)" "s / 2 ^ ?k"] by simp
  then have "2 ^ 52 \<le> rne (s / 2 ^ ?k)" by (simp only: rne_of_int)
  then have "(of_int (2 ^ 52) :: rat) \<le> of_int (rne (s / 2 ^ ?k))" by (simp only: of_int_le_iff)
  then have "(of_int (2 ^ 52) :: rat) * 2 ^ ?k \<le> of_int (rne (s / 2 ^ ?k)) * 2 ^ ?k"
    by (intro mult_right_mono) simp_all
  then show ?thesis unfolding rnd_nonneg_def [OF assms(1)] by (simp add: power_add mult.commute)
qed

lemma rnd_mono:
  assumes "0 \<le> s" "s \<le> t"
  shows "rnd s \<le> rnd t"
proof (cases "quantum s = quantum t")
  case True
  from assms have t: "0 \<le> t" by simp
  have "s / 2 ^ quantum t \<le> t / 2 ^ quantum t"
    using assms(2) by (simp add: divide_right_mono)
  then have "rne (s / 2 ^ quantum t) \<le> rne (t / 2 ^ quantum t)" by (rule rne_mono)
  then have "(of_int (rne (s / 2 ^ quantum t)) :: rat) \<le> of_int (rne (t / 2 ^ quantum t))"
    by (simp only: of_int_le_iff)
  then have "(of_int (rne (s / 2 ^ quantum t)) :: rat) * 2 ^ quantum t
      \<le> of_int (rne (t / 2 ^ quantum t)) * 2 ^ quantum t"
    by (intro mult_right_mono) simp_all
  then show ?thesis
    unfolding rnd_nonneg_def [OF assms(1)] rnd_nonneg_def [OF t] True .
next
  case False
  from assms have t: "0 \<le> t" by simp
  from False quantum_mono [OF assms(2)] have lt: "quantum s < quantum t" by simp
  then have pos: "0 < quantum t" by simp
  have "rnd s \<le> 2 ^ (quantum s + 53)" by (rule rnd_upper [OF assms(1)])
  also have "(2::rat) ^ (quantum s + 53) \<le> 2 ^ (quantum t + 52)"
    using lt by (intro power_increasing) simp_all
  also have "\<dots> \<le> rnd t" by (rule rnd_lower [OF t pos])
  finally show ?thesis .
qed

lemma rnd_exact:
  assumes "0 \<le> m" "m \<le> 2 ^ 53"
  shows "rnd (of_int m * 2 ^ j) = of_int m * 2 ^ j"
proof -
  let ?s = "(of_int m :: rat) * 2 ^ j"
  have s: "0 \<le> ?s" using assms(1) by simp
  have "\<exists>n. ?s / 2 ^ quantum ?s = of_int n"
  proof (cases "m = 2 ^ 53")
    case True
    then have eq: "?s = 2 ^ (j + 1 + 52)" by (simp add: power_add)
    have "quantum ?s = j + 1"
      unfolding eq by (rule quantum_eq) (simp_all add: power_strict_increasing)
    then have "?s / 2 ^ quantum ?s = of_int (2 ^ 52)"
      unfolding eq by (simp add: power_add)
    then show ?thesis by blast
  next
    case False
    with assms have "m < 2 ^ 53" by simp
    then have "(of_int m :: rat) < of_int (2 ^ 53)" by (simp only: of_int_less_iff)
    then have "?s < 2 ^ (j + 53)" by (simp add: power_add mult.commute)
    then have le: "quantum ?s \<le> j" by (rule quantum_le)
    define q where "q = quantum ?s"
    from le have "(2::rat) ^ (j - q) = 2 ^ j / 2 ^ q"
      unfolding q_def by (simp add: power_diff)
    then have "?s / 2 ^ q = of_int (m * 2 ^ (j - q))"
      by simp
    then have "?s / 2 ^ quantum ?s = of_int (m * 2 ^ (j - q))"
      unfolding q_def .
    then show ?thesis by blast
  qed
  then obtain n where n: "?s / 2 ^ quantum ?s = of_int n" by blast
  have "rnd ?s = of_int n * 2 ^ quantum ?s"
    unfolding rnd_nonneg_def [OF s] n by simp
  also have "\<dots> = ?s / 2 ^ quantum ?s * 2 ^ quantum ?s" by (simp only: n)
  also have "\<dots> = ?s" by simp
  finally show ?thesis .
qed

lemma rnd_integral: "\<exists>n. rnd s = of_int n"
proof -
  have "rnd s = of_int (rne (s / 2 ^ quantum \<bar>s\<bar>) * 2 ^ quantum \<bar>s\<bar>)"
    by (simp add: rnd_def)
  then show ?thesis by blast
qed

lemma floor_rat_numeral_div [simp]:
  "\<lfloor>(numeral a :: rat) / numeral b\<rfloor> = numeral a div numeral b"
  using floor_divide_of_int_eq [of "numeral a" "numeral b", where ?'a = rat] by simp

lemma fl_nonneg: "0 \<le> x \<Longrightarrow> 0 \<le> fl x"
  by (simp add: fl_def rnd_nonneg)

lemma fl_mono:
  assumes "0 \<le> x" "x \<le> y"
  shows "fl x \<le> fl y"
proof -
  have "rnd (x * 2 ^ 1074) \<le> rnd (y * 2 ^ 1074)"
    using assms by (intro rnd_mono) simp_all
  then show ?thesis by (simp add: fl_def divide_right_mono)
qed

lemma fl_exact:
  assumes "0 \<le> m" "m \<le> 2 ^ 53" "x * 2 ^ 1074 = of_int m * 2 ^ j"
  shows "fl x = x"
proof -
  have "fl x = of_int m * 2 ^ j / 2 ^ 1074"
    unfolding fl_def assms(3) rnd_exact [OF assms(1,2)] ..
  also have "\<dots> = x * 2 ^ 1074 / 2 ^ 1074" by (simp only: assms(3))
  finally show ?thesis by simp
qed

lemma fl_of_int:
  assumes "0 \<le> n" "n \<le> 2 ^ 53"
  shows "fl (of_int n) = of_int n"
  by (rule fl_exact [OF assms, of _ 1074]) simp

lemma fl_zero [simp]: "fl 0 = 0"
  using fl_of_int [of 0] by simp

lemma fl_one [simp]: "fl 1 = 1"
  using fl_of_int [of 1] by simp

lemma fl_pow2: "fl (2 ^ k) = 2 ^ k"
  by (rule fl_exact [of 1 _ "k + 1074"]) (simp_all add: power_add)

lemma fl_le_int:
  assumes "0 \<le> x" "x \<le> of_int n" "n \<le> 2 ^ 53"
  shows "fl x \<le> of_int n"
proof -
  from assms have n: "0 \<le> n" by (simp add: of_int_0_le_iff [symmetric, where 'a = rat] del: of_int_0_le_iff) 
  have "fl x \<le> fl (of_int n)" using assms(1,2) by (rule fl_mono)
  then show ?thesis by (simp only: fl_of_int [OF n assms(3)])
qed

lemma fl_le_pow2:
  assumes "0 \<le> x" "x \<le> 2 ^ k"
  shows "fl x \<le> 2 ^ k"
  using fl_mono [OF assms] by (simp only: fl_pow2)

lemma fl_le_one: "0 \<le> x \<Longrightarrow> x \<le> 1 \<Longrightarrow> fl x \<le> 1"
  using fl_le_pow2 [of x 0] by simp

lemma fl_eval:
  assumes "2 ^ (k + 52) \<le> x * 2 ^ 1074" "x * 2 ^ 1074 < 2 ^ (k + 53)"
  shows "fl x = of_int (rne (x * 2 ^ 1074 / 2 ^ k)) * 2 ^ k / 2 ^ 1074"
proof -
  have "(0::rat) \<le> 2 ^ (k + 52)" by simp
  with assms(1) have nn: "0 \<le> x * 2 ^ 1074" by linarith
  have "quantum (x * 2 ^ 1074) = k" using assms by (rule quantum_eq)
  then show ?thesis unfolding fl_def rnd_nonneg_def [OF nn] by simp
qed

lemma fl_eval_ge1:
  assumes "2 ^ e \<le> x" "x < 2 ^ (e + 1)"
  shows "fl x = of_int (rne (x * 2 ^ 52 / 2 ^ e)) * 2 ^ e / 2 ^ 52"
proof -
  have a: "2 ^ (e + 1022 + 52) \<le> x * 2 ^ 1074"
  proof -
    have "(2::rat) ^ (e + 1022 + 52) = 2 ^ e * 2 ^ 1074" by (simp add: power_add)
    also have "\<dots> \<le> x * 2 ^ 1074" using assms(1) by (intro mult_right_mono) simp_all
    finally show ?thesis .
  qed
  have b: "x * 2 ^ 1074 < 2 ^ (e + 1022 + 53)"
  proof -
    have "x * 2 ^ 1074 < 2 ^ (e + 1) * 2 ^ 1074"
      using assms(2) by (intro mult_strict_right_mono) simp_all
    also have "\<dots> = (2::rat) ^ (e + 1022 + 53)" by (simp add: power_add)
    finally show ?thesis .
  qed
  have c: "x * 2 ^ 1074 / 2 ^ (e + 1022) = x * 2 ^ 52 / 2 ^ e"
    by (simp add: power_add)
  have d: "(2::rat) ^ (e + 1022) / 2 ^ 1074 = 2 ^ e / 2 ^ 52"
    by (simp add: power_add)
  have "fl x = of_int (rne (x * 2 ^ 1074 / 2 ^ (e + 1022))) * (2 ^ (e + 1022) / 2 ^ 1074)"
    unfolding fl_eval [OF a b] by simp
  then show ?thesis unfolding c d by simp
qed

lemma fl_eval_lt1:
  assumes "1 \<le> x * 2 ^ e" "x * 2 ^ e < 2" "e \<le> 1022"
  shows "fl x = of_int (rne (x * 2 ^ (e + 52))) / 2 ^ (e + 52)"
proof -
  define k where "k = 1022 - e"
  from assms(3) have ke: "k + e = 1022" by (simp add: k_def)
  have "(1074::nat) = e + (k + 52)" using ke by simp
  then have "(2::rat) ^ 1074 = 2 ^ (e + (k + 52))" by (rule arg_cong)
  then have p: "(2::rat) ^ 1074 = 2 ^ e * 2 ^ (k + 52)" by (simp only: power_add)
  have a: "2 ^ (k + 52) \<le> x * 2 ^ 1074"
  proof -
    have "1 * (2::rat) ^ (k + 52) \<le> x * 2 ^ e * 2 ^ (k + 52)"
      using assms(1) by (intro mult_right_mono) simp_all
    then show ?thesis unfolding p by (simp add: mult.assoc)
  qed
  have b: "x * 2 ^ 1074 < 2 ^ (k + 53)"
  proof -
    have "x * 2 ^ e * 2 ^ (k + 52) < 2 * (2::rat) ^ (k + 52)"
      using assms(2) by (intro mult_strict_right_mono) simp_all
    also have "2 * (2::rat) ^ (k + 52) = 2 ^ (k + 53)" by (simp add: power_add)
    finally show ?thesis unfolding p by (simp only: mult.assoc)
  qed
  have "(1074::nat) = (e + 52) + k" using ke by simp
  then have "(2::rat) ^ 1074 = 2 ^ ((e + 52) + k)" by (rule arg_cong)
  then have q: "(2::rat) ^ 1074 = 2 ^ (e + 52) * 2 ^ k" by (simp only: power_add)
  have c: "x * 2 ^ 1074 / 2 ^ k = x * 2 ^ (e + 52)"
    unfolding q by simp
  have d: "(2::rat) ^ k / 2 ^ 1074 = 1 / 2 ^ (e + 52)"
    unfolding q by simp
  have "fl x = of_int (rne (x * 2 ^ 1074 / 2 ^ k)) * (2 ^ k / 2 ^ 1074)"
    unfolding fl_eval [OF a b] by simp
  then show ?thesis unfolding c d by simp
qed

section \<open>Float operations on values in range\<close>

lemma pow2_1023_less: "(2::rat) ^ 1023 < 2 ^ 1024"
  by (rule power_strict_increasing) simp_all

lemma fround_range:
  assumes "0 \<le> x" "x \<le> 2 ^ 1023"
  shows "fround x = Fin (fl x)"
proof -
  have a: "0 \<le> fl x" using assms(1) by (rule fl_nonneg)
  have "fl x \<le> 2 ^ 1023" using assms by (rule fl_le_pow2)
  then have b: "fl x < 2 ^ 1024" using pow2_1023_less by (rule le_less_trans)
  have "- ((2::rat) ^ 1024) < 0" by simp
  then have c: "- ((2::rat) ^ 1024) < fl x" using a by (rule less_le_trans)
  from b c show ?thesis unfolding fround_def Let_def by (simp only: not_le [symmetric] if_False)
qed

lemma fround_unit:
  assumes "0 \<le> x" "x \<le> 1"
  shows "fround x = Fin (fl x)"
proof -
  have "(1::rat) \<le> 2 ^ 1023" by (rule one_le_power) simp
  with assms(2) have "x \<le> 2 ^ 1023" by (rule order_trans)
  with assms(1) show ?thesis by (rule fround_range)
qed

lemma fround_not_nan: "fround x \<noteq> NaN"
  by (simp add: fround_def Let_def)

lemma int_le_pow2_rat:
  assumes "n \<le> 2 ^ k"
  shows "(of_int n :: rat) \<le> 2 ^ k"
proof -
  from assms have "(of_int n :: rat) \<le> of_int (2 ^ k)" by (simp only: of_int_le_iff)
  then show ?thesis by simp
qed

lemma pow2_53_le_1023: "(2::rat) ^ 53 \<le> 2 ^ 1023"
  by (rule power_increasing) simp_all

lemma fround_of_int:
  assumes "0 \<le> n" "n \<le> 2 ^ 53"
  shows "fround (of_int n) = Fin (of_int n)"
proof -
  have "(of_int n :: rat) \<le> 2 ^ 53" using assms(2) by (rule int_le_pow2_rat)
  then have "(of_int n :: rat) \<le> 2 ^ 1023" using pow2_53_le_1023 by (rule order_trans)
  moreover have "0 \<le> (of_int n :: rat)" using assms(1) by simp
  ultimately have "fround (of_int n) = Fin (fl (of_int n))" by (intro fround_range)
  then show ?thesis by (simp only: fl_of_int [OF assms])
qed

lemma float_of_int_range:
  assumes "0 \<le> n" "n \<le> 2 ^ 1023"
  shows "float_of_int n = Inr (Fin (fl (of_int n)))"
proof -
  have "(of_int n :: rat) \<le> 2 ^ 1023" using assms(2) by (rule int_le_pow2_rat)
  moreover have "0 \<le> (of_int n :: rat)" using assms(1) by simp
  ultimately have "fround (of_int n) = Fin (fl (of_int n))" by (intro fround_range)
  then show ?thesis by (simp add: float_of_int_def)
qed

lemma float_of_int_small:
  assumes "0 \<le> n" "n \<le> 2 ^ 53"
  shows "float_of_int n = Inr (Fin (of_int n))"
  by (simp add: float_of_int_def fround_of_int [OF assms])

lemma float_of_int_cases:
  "float_of_int n = Inl OverflowError \<or> (\<exists>r. float_of_int n = Inr (Fin r))"
  by (simp add: float_of_int_def split: pyfloat.split)

lemma int_truediv_zero: "int_truediv a 0 = Inl ZeroDivisionError"
  by (simp add: int_truediv_def)

lemma int_truediv_cases:
  "b \<noteq> 0 \<Longrightarrow> int_truediv a b = Inl OverflowError \<or> (\<exists>r. int_truediv a b = Inr (Fin r))"
  by (simp add: int_truediv_def split: pyfloat.split)

lemma quotient_unit:
  fixes a b :: int
  assumes "0 \<le> a" "a \<le> b" "0 < b"
  shows "0 \<le> (of_int a :: rat) / of_int b" "(of_int a :: rat) / of_int b \<le> 1"
  using assms by (simp_all add: divide_le_eq)

lemma int_truediv_unit:
  assumes "0 \<le> a" "a \<le> b" "0 < b"
  shows "int_truediv a b = Inr (Fin (fl (of_int a / of_int b)))"
proof -
  from assms(3) have "b \<noteq> 0" by simp
  moreover have "fround (of_int a / of_int b) = Fin (fl (of_int a / of_int b))"
    using quotient_unit [OF assms] by (rule fround_unit)
  ultimately show ?thesis by (simp add: int_truediv_def)
qed

lemma int_truediv_range:
  assumes "0 \<le> a" "a \<le> 2 ^ 1023" "0 < b"
  shows "int_truediv a b = Inr (Fin (fl (of_int a / of_int b)))"
proof -
  from assms(3) have nz: "b \<noteq> 0" by simp
  have b1: "(1::rat) \<le> of_int b" using assms(3) by simp
  have a0: "0 \<le> (of_int a :: rat)" using assms(1) by simp
  have "(of_int a :: rat) / of_int b \<le> of_int a / 1"
    using a0 b1 by (intro divide_left_mono) simp_all
  also have "\<dots> \<le> 2 ^ 1023" using int_le_pow2_rat [OF assms(2)] by simp
  finally have "(of_int a :: rat) / of_int b \<le> 2 ^ 1023" .
  moreover have "0 \<le> (of_int a :: rat) / of_int b" using a0 b1 by simp
  ultimately have "fround (of_int a / of_int b) = Fin (fl (of_int a / of_int b))"
    by (intro fround_range)
  with nz show ?thesis by (simp add: int_truediv_def)
qed

lemma percent_value: "percent (Fin r) = Inr (fround (r * 100))"
proof -
  have "float_of_int 100 = Inr (Fin (of_int 100))" by (rule float_of_int_small) simp_all
  then show ?thesis by (simp add: percent_def and_then_def)
qed

lemma int_of_nonneg: "0 \<le> x \<Longrightarrow> int_of x = \<lfloor>x\<rfloor>"
  by (simp add: int_of_def)

lemma int_of_of_int: "int_of (of_int n) = n"
  by (simp add: int_of_def)

lemma int_of_float_int: "int_of_float (Fin (of_int n)) = Inr n"
  by (simp only: int_of_float_def pyfloat.case int_of_of_int)

lemma fl_numeral:
  assumes "numeral k \<le> (2::int) ^ 53"
  shows "fl (numeral k) = numeral k"
  using fl_of_int [of "numeral k"] assms by simp

lemma fround_numeral:
  assumes "numeral k \<le> (2::int) ^ 53"
  shows "fround (numeral k) = Fin (numeral k)"
  using fround_of_int [of "numeral k"] assms by simp

lemma float_of_int_numeral:
  assumes "numeral k \<le> (2::int) ^ 53"
  shows "float_of_int (numeral k) = Inr (Fin (numeral k))"
  using float_of_int_small [of "numeral k"] assms by simp

lemma int_of_numeral: "int_of (numeral k) = numeral k"
  using int_of_of_int [of "numeral k"] by simp

lemma fl_half: "fl (1 / 2) = 1 / 2"
  by (rule fl_exact [of 1 _ 1073]) simp_all

section \<open>Properties of the metric derivation\<close>

lemma and_then_Inl [simp]: "and_then (Inl e) f = Inl e"
  by (simp add: and_then_def)

lemma and_then_Inr [simp]: "and_then (Inr x) f = f x"
  by (simp add: and_then_def)

lemma ratio_cases:
  fixes n d :: int
  defines "R \<equiv> (if 0 < d then and_then (int_truediv n d) percent else Inr (Fin 0))"
  shows "R = Inl OverflowError \<or> (\<exists>p. R = Inr p \<and> p \<noteq> NaN \<and> (d \<le> 0 \<longrightarrow> p = Fin 0))"
proof (cases "0 < d")
  case True
  then have "d \<noteq> 0" by simp
  from int_truediv_cases [OF this, of n] show ?thesis
    using True by (auto simp: R_def percent_value fround_not_nan)
next
  case False
  then show ?thesis by (simp add: R_def)
qed

lemma weights_cases:
  fixes r w ops :: int
  defines "W \<equiv> (if 0 < ops
                   then and_then (int_truediv r ops) (\<lambda>read_weight.
                        and_then (int_truediv w ops) (\<lambda>write_weight.
                        Inr (read_weight, write_weight)))
                   else Inr (Fin (1 / 2), Fin (1 / 2)))"
  shows "W = Inl OverflowError \<or> (\<exists>x y. W = Inr (Fin x, Fin y))"
proof (cases "0 < ops")
  case True
  then have "ops \<noteq> 0" by simp
  from int_truediv_cases [OF this, of r] int_truediv_cases [OF this, of w] show ?thesis
    using True by (auto simp: W_def)
next
  case False
  then have "W = Inr (Fin (1 / 2), Fin (1 / 2))" by (simp add: W_def)
  then show ?thesis by blast
qed

lemma estimate_cases:
  defines "E \<equiv> \<lambda>ub rw. and_then (float_of_int ub) (\<lambda>u. int_of_float (fmul u rw))"
  shows "E ub (Fin x) = Inl OverflowError \<or> (\<exists>n. E ub (Fin x) = Inr n)"
proof -
  from float_of_int_cases [of ub] show ?thesis
  proof
    assume "float_of_int ub = Inl OverflowError"
    then show ?thesis by (simp add: E_def)
  next
    assume "\<exists>r. float_of_int ub = Inr (Fin r)"
    then obtain r where "float_of_int ub = Inr (Fin r)" ..
    then show ?thesis
      by (simp add: E_def int_of_float_def fround_def Let_def)
  qed
qed

lemma derivation_unfold:
  fixes pool tb ub db rh rm wh wm :: int and extra :: "int list"
  shows "get_lvm_cache_stats pool (tb # ub # db # rh # rm # wh # wm # extra) = except_none
     (and_then (if 0 < tb then and_then (int_truediv ub tb) percent else Inr (Fin 0)) (\<lambda>cu.
      and_then (if 0 < tb then and_then (int_truediv db tb) percent else Inr (Fin 0)) (\<lambda>dr.
      and_then (if 0 < rh + rm + (wh + wm)
                then and_then (int_truediv (rh + wh) (rh + rm + (wh + wm))) percent
                else Inr (Fin 0)) (\<lambda>hr.
      and_then (if 0 < rh + rm then and_then (int_truediv rh (rh + rm)) percent
                else Inr (Fin 0)) (\<lambda>rr.
      and_then (if 0 < wh + wm then and_then (int_truediv wh (wh + wm)) percent
                else Inr (Fin 0)) (\<lambda>wr.
      and_then (if 0 < rh + rm + (wh + wm)
                then and_then (int_truediv (rh + rm) (rh + rm + (wh + wm))) (\<lambda>read_weight.
                     and_then (int_truediv (wh + wm) (rh + rm + (wh + wm))) (\<lambda>write_weight.
                     Inr (read_weight, write_weight)))
                else Inr (Fin (1 / 2), Fin (1 / 2))) (\<lambda>(rw, ww).
      and_then (and_then (float_of_int ub) (\<lambda>u. int_of_float (fmul u rw))) (\<lambda>er.
        Inr (Some \<lparr>total_blocks = tb, used_blocks = ub, dirty_blocks = db,
          cache_usage_pct = cu, dirty_ratio_pct = dr, hit_ratio_pct = hr,
          read_hit_ratio_pct = rr, write_hit_ratio_pct = wr,
          read_hits = rh, read_misses = rm, write_hits = wh, write_misses = wm,
          total_reads = rh + rm, total_writes = wh + wm,
          total_ops = rh + rm + (wh + wm),
          block_size = (if 0 < tb then pool div tb else 4096), pool_size_bytes = pool,
          estimated_read_blocks = er, estimated_write_blocks = ub - er\<rparr>)))))))))"
  by (simp add: get_lvm_cache_stats_def Let_def floordiv_def)

text \<open>
  The derivation on a sample of at least seven counters, whatever their values: it raises
  \<open>OverflowError\<close> or returns a record; it never returns \<open>None\<close> and raises nothing else.
  In a record, the block size is the floor quotient or 4096, the two estimates add up to
  \<open>used_blocks\<close>, no percentage is a NaN, and a percentage whose denominator is not
  positive is 0.
\<close>

lemma derivation_cases:
  fixes pool tb ub db rh rm wh wm :: int and extra :: "int list"
  defines "res \<equiv> get_lvm_cache_stats pool (tb # ub # db # rh # rm # wh # wm # extra)"
  shows "res = Inl OverflowError \<or>
    (\<exists>s. res = Inr (Some s)
       \<and> total_blocks s = tb \<and> used_blocks s = ub \<and> dirty_blocks s = db
       \<and> total_reads s = rh + rm \<and> total_writes s = wh + wm
       \<and> total_ops s = rh + rm + (wh + wm)
       \<and> block_size s = (if 0 < tb then pool div tb else 4096)
       \<and> estimated_write_blocks s = ub - estimated_read_blocks s
       \<and> cache_usage_pct s \<noteq> NaN \<and> dirty_ratio_pct s \<noteq> NaN \<and> hit_ratio_pct s \<noteq> NaN
       \<and> read_hit_ratio_pct s \<noteq> NaN \<and> write_hit_ratio_pct s \<noteq> NaN
       \<and> (tb \<le> 0 \<longrightarrow> cache_usage_pct s = Fin 0 \<and> dirty_ratio_pct s = Fin 0)
       \<and> (rh + rm + (wh + wm) \<le> 0 \<longrightarrow> hit_ratio_pct s = Fin 0)
       \<and> (rh + rm \<le> 0 \<longrightarrow> read_hit_ratio_pct s = Fin 0)
       \<and> (wh + wm \<le> 0 \<longrightarrow> write_hit_ratio_pct s = Fin 0))"
proof -
  define CU where "CU = (if 0 < tb then and_then (int_truediv ub tb) percent else Inr (Fin 0))"
  define DR where "DR = (if 0 < tb then and_then (int_truediv db tb) percent else Inr (Fin 0))"
  define HR where "HR = (if 0 < rh + rm + (wh + wm)
     then and_then (int_truediv (rh + wh) (rh + rm + (wh + wm))) percent else Inr (Fin 0))"
  define RR where "RR = (if 0 < rh + rm
     then and_then (int_truediv rh (rh + rm)) percent else Inr (Fin 0))"
  define WR where "WR = (if 0 < wh + wm
     then and_then (int_truediv wh (wh + wm)) percent else Inr (Fin 0))"
  define W where "W = (if 0 < rh + rm + (wh + wm)
     then and_then (int_truediv (rh + rm) (rh + rm + (wh + wm))) (\<lambda>read_weight.
          and_then (int_truediv (wh + wm) (rh + rm + (wh + wm))) (\<lambda>write_weight.
          Inr (read_weight, write_weight)))
     else Inr (Fin (1 / 2), Fin (1 / 2)))"
  define E where "E = (\<lambda>rw. and_then (float_of_int ub) (\<lambda>u. int_of_float (fmul u rw)))"
  define BS where "BS = (if 0 < tb then pool div tb else 4096)"
  have eq: "res = except_none
     (and_then CU (\<lambda>cu. and_then DR (\<lambda>dr. and_then HR (\<lambda>hr. and_then RR (\<lambda>rr.
      and_then WR (\<lambda>wr. and_then W (\<lambda>(rw, ww). and_then (E rw) (\<lambda>er.
        Inr (Some \<lparr>total_blocks = tb, used_blocks = ub, dirty_blocks = db,
          cache_usage_pct = cu, dirty_ratio_pct = dr, hit_ratio_pct = hr,
          read_hit_ratio_pct = rr, write_hit_ratio_pct = wr,
          read_hits = rh, read_misses = rm, write_hits = wh, write_misses = wm,
          total_reads = rh + rm, total_writes = wh + wm,
          total_ops = rh + rm + (wh + wm), block_size = BS, pool_size_bytes = pool,
          estimated_read_blocks = er, estimated_write_blocks = ub - er\<rparr>)))))))))"
    unfolding res_def CU_def DR_def HR_def RR_def WR_def W_def E_def BS_def
    by (rule derivation_unfold)
  have cu: "CU = Inl OverflowError \<or> (\<exists>p. CU = Inr p \<and> p \<noteq> NaN \<and> (tb \<le> 0 \<longrightarrow> p = Fin 0))"
    unfolding CU_def by (rule ratio_cases)
  have dr: "DR = Inl OverflowError \<or> (\<exists>p. DR = Inr p \<and> p \<noteq> NaN \<and> (tb \<le> 0 \<longrightarrow> p = Fin 0))"
    unfolding DR_def by (rule ratio_cases)
  have hr: "HR = Inl OverflowError
      \<or> (\<exists>p. HR = Inr p \<and> p \<noteq> NaN \<and> (rh + rm + (wh + wm) \<le> 0 \<longrightarrow> p = Fin 0))"
    unfolding HR_def by (rule ratio_cases)
  have rr: "RR = Inl OverflowError \<or> (\<exists>p. RR = Inr p \<and> p \<noteq> NaN \<and> (rh + rm \<le> 0 \<longrightarrow> p = Fin 0))"
    unfolding RR_def by (rule ratio_cases)
  have wr: "WR = Inl OverflowError \<or> (\<exists>p. WR = Inr p \<and> p \<noteq> NaN \<and> (wh + wm \<le> 0 \<longrightarrow> p = Fin 0))"
    unfolding WR_def by (rule ratio_cases)
  have w: "W = Inl OverflowError \<or> (\<exists>x y. W = Inr (Fin x, Fin y))"
    unfolding W_def by (rule weights_cases)
  have e: "E (Fin x) = Inl OverflowError \<or> (\<exists>n. E (Fin x) = Inr n)" for x
    unfolding E_def by (rule estimate_cases)
  have tail: "and_then W (\<lambda>(rw, ww). and_then (E rw) (\<lambda>er. Inr (g er))) = Inl OverflowError
      \<or> (\<exists>er. and_then W (\<lambda>(rw, ww). and_then (E rw) (\<lambda>er. Inr (g er))) = Inr (g er))" for g :: "int \<Rightarrow> stats option"
  proof -
    from w show ?thesis
    proof
      assume "W = Inl OverflowError"
      then show ?thesis by simp
    next
      assume "\<exists>x y. W = Inr (Fin x, Fin y)"
      then obtain x y where "W = Inr (Fin x, Fin y)" by blast
      with e [of x] show ?thesis by auto
    qed
  qed
  have err: ?thesis
    if "CU = Inl OverflowError \<or> DR = Inl OverflowError \<or> HR = Inl OverflowError
        \<or> RR = Inl OverflowError \<or> WR = Inl OverflowError"
    using that cu dr hr rr wr
    by (elim disjE exE conjE) (simp_all add: eq except_none_def)
  show ?thesis
  proof (cases "CU = Inl OverflowError \<or> DR = Inl OverflowError \<or> HR = Inl OverflowError
        \<or> RR = Inl OverflowError \<or> WR = Inl OverflowError")
    case True
    then show ?thesis by (rule err)
  next
    case False
    with cu dr hr rr wr obtain cu' dr' hr' rr' wr'
      where ok: "CU = Inr cu'" "DR = Inr dr'" "HR = Inr hr'" "RR = Inr rr'" "WR = Inr wr'"
        and nan: "cu' \<noteq> NaN" "dr' \<noteq> NaN" "hr' \<noteq> NaN" "rr' \<noteq> NaN" "wr' \<noteq> NaN"
        and zero: "tb \<le> 0 \<longrightarrow> cu' = Fin 0" "tb \<le> 0 \<longrightarrow> dr' = Fin 0"
          "rh + rm + (wh + wm) \<le> 0 \<longrightarrow> hr' = Fin 0" "rh + rm \<le> 0 \<longrightarrow> rr' = Fin 0"
          "wh + wm \<le> 0 \<longrightarrow> wr' = Fin 0"
      by blast
    define g where "g = (\<lambda>er. Some \<lparr>total_blocks = tb, used_blocks = ub, dirty_blocks = db,
          cache_usage_pct = cu', dirty_ratio_pct = dr', hit_ratio_pct = hr',
          read_hit_ratio_pct = rr', write_hit_ratio_pct = wr',
          read_hits = rh, read_misses = rm, write_hits = wh, write_misses = wm,
          total_reads = rh + rm, total_writes = wh + wm,
          total_ops = rh + rm + (wh + wm), block_size = BS, pool_size_bytes = pool,
          estimated_read_blocks = er, estimated_write_blocks = ub - er\<rparr>)"
    have "res = except_none (and_then W (\<lambda>(rw, ww). and_then (E rw) (\<lambda>er. Inr (g er))))"
      unfolding eq ok g_def by simp
    with tail [of g] have "res = Inl OverflowError \<or> (\<exists>er. res = Inr (g er))"
      by (auto simp: except_none_def)
    then show ?thesis
    proof
      assume "res = Inl OverflowError"
      then show ?thesis ..
    next
      assume "\<exists>er. res = Inr (g er)"
      then obtain er where "res = Inr (g er)" ..
      then show ?thesis using nan zero by (simp add: g_def BS_def)
    qed
  qed
qed

lemma ratio_value_range:
  assumes "0 \<le> n" "n \<le> 2 ^ 1023"
  shows "(if 0 < d then and_then (int_truediv n d) percent else Inr (Fin 0))
    = Inr (if 0 < d then fround (fl (of_int n / of_int d) * 100) else Fin 0)"
  by (simp add: int_truediv_range [OF assms] percent_value)

lemma ratio_value_unit:
  assumes "0 \<le> n" "n \<le> d"
  shows "(if 0 < d then and_then (int_truediv n d) percent else Inr (Fin 0))
    = Inr (if 0 < d then fround (fl (of_int n / of_int d) * 100) else Fin 0)"
  by (simp add: int_truediv_unit [OF assms] percent_value)

lemma read_weight_unit:
  assumes "0 \<le> r" "r \<le> ops"
  shows "0 \<le> read_weight_of r ops" "read_weight_of r ops \<le> 1"
proof -
  show "0 \<le> read_weight_of r ops"
    using assms by (simp add: read_weight_of_def fl_nonneg)
  show "read_weight_of r ops \<le> 1"
  proof (cases "0 < ops")
    case True
    from quotient_unit [OF assms True] have "fl (of_int r / of_int ops) \<le> 1"
      by (rule fl_le_one)
    with True show ?thesis by (simp add: read_weight_of_def)
  next
    case False
    then show ?thesis by (simp add: read_weight_of_def)
  qed
qed

lemma weights_value:
  assumes "0 \<le> r" "0 \<le> w" "ops = r + w"
  shows "(if 0 < ops
          then and_then (int_truediv r ops) (\<lambda>read_weight.
               and_then (int_truediv w ops) (\<lambda>write_weight.
               Inr (read_weight, write_weight)))
          else Inr (Fin (1 / 2), Fin (1 / 2)))
    = Inr (Fin (read_weight_of r ops), Fin (read_weight_of w ops))"
proof (cases "0 < ops")
  case True
  from assms have "r \<le> ops" "w \<le> ops" by simp_all
  then show ?thesis
    using True assms(1,2) by (simp add: int_truediv_unit read_weight_of_def)
next
  case False
  then show ?thesis by (simp add: read_weight_of_def)
qed

lemma estimate_value:
  assumes "0 \<le> ub" "ub \<le> 2 ^ 1023" "0 \<le> x" "x \<le> 1"
  shows "and_then (float_of_int ub) (\<lambda>u. int_of_float (fmul u (Fin x)))
    = Inr \<lfloor>fl (fl (of_int ub) * x)\<rfloor>"
    and "0 \<le> fl (fl (of_int ub) * x)"
proof -
  define u where "u = fl (of_int ub)"
  have u0: "0 \<le> u" unfolding u_def using assms(1) by (intro fl_nonneg) simp
  have u1: "u \<le> 2 ^ 1023"
    unfolding u_def using assms(1) int_le_pow2_rat [OF assms(2)] by (intro fl_le_pow2) simp_all
  have p0: "0 \<le> u * x" using u0 assms(3) by simp
  have "u * x \<le> u * 1" using u0 assms(4) by (intro mult_left_mono)
  then have p1: "u * x \<le> u" by simp
  then have p2: "u * x \<le> 2 ^ 1023" using u1 by (rule order_trans)
  show nn: "0 \<le> fl (fl (of_int ub) * x)" using p0 unfolding u_def by (rule fl_nonneg)
  have "fround (u * x) = Fin (fl (u * x))" using p0 p2 by (rule fround_range)
  then show "and_then (float_of_int ub) (\<lambda>u. int_of_float (fmul u (Fin x)))
    = Inr \<lfloor>fl (fl (of_int ub) * x)\<rfloor>"
    using nn by (simp add: float_of_int_range [OF assms(1,2)] u_def int_of_float_def int_of_nonneg)
qed

text \<open>
  The derivation on counters in range: none negative, \<open>used_blocks\<close> and \<open>dirty_blocks\<close>
  at most \<open>2 ^ 1023\<close>. It returns a record, whose fields are as follows.
\<close>

lemma derivation_value:
  fixes pool tb ub db rh rm wh wm :: int and extra :: "int list"
  assumes "0 \<le> ub" "ub \<le> 2 ^ 1023" "0 \<le> db" "db \<le> 2 ^ 1023"
    and "0 \<le> rh" "0 \<le> rm" "0 \<le> wh" "0 \<le> wm"
  shows "get_lvm_cache_stats pool (tb # ub # db # rh # rm # wh # wm # extra) =
    Inr (Some \<lparr>total_blocks = tb, used_blocks = ub, dirty_blocks = db,
      cache_usage_pct = (if 0 < tb then fround (fl (of_int ub / of_int tb) * 100) else Fin 0),
      dirty_ratio_pct = (if 0 < tb then fround (fl (of_int db / of_int tb) * 100) else Fin 0),
      hit_ratio_pct = (if 0 < rh + rm + (wh + wm)
         then fround (fl (of_int (rh + wh) / of_int (rh + rm + (wh + wm))) * 100) else Fin 0),
      read_hit_ratio_pct =
        (if 0 < rh + rm then fround (fl (of_int rh / of_int (rh + rm)) * 100) else Fin 0),
      write_hit_ratio_pct =
        (if 0 < wh + wm then fround (fl (of_int wh / of_int (wh + wm)) * 100) else Fin 0),
      read_hits = rh, read_misses = rm, write_hits = wh, write_misses = wm,
      total_reads = rh + rm, total_writes = wh + wm,
      total_ops = rh + rm + (wh + wm),
      block_size = (if 0 < tb then pool div tb else 4096), pool_size_bytes = pool,
      estimated_read_blocks =
        \<lfloor>fl (fl (of_int ub) * read_weight_of (rh + rm) (rh + rm + (wh + wm)))\<rfloor>,
      estimated_write_blocks =
        ub - \<lfloor>fl (fl (of_int ub) * read_weight_of (rh + rm) (rh + rm + (wh + wm)))\<rfloor>\<rparr>)"
proof -
  have r: "0 \<le> rh + rm" "0 \<le> wh + wm" "rh + rm \<le> rh + rm + (wh + wm)"
    "0 \<le> rh + wh" "rh + wh \<le> rh + rm + (wh + wm)" "rh \<le> rh + rm" "wh \<le> wh + wm"
    using assms by simp_all
  note w = read_weight_unit [OF r(1) r(3)]
  show ?thesis
    unfolding derivation_unfold
    unfolding ratio_value_range [OF assms(1,2)] ratio_value_range [OF assms(3,4)]
      ratio_value_unit [OF r(4,5)] ratio_value_unit [OF assms(5) r(6)]
      ratio_value_unit [OF assms(7) r(7)]
      weights_value [OF r(1,2) refl]
    by (simp add: estimate_value(1) [OF assms(1,2) w] except_none_def)
qed

lemma fround_overflow:
  assumes "2 ^ 1024 \<le> x"
  shows "fround x = PInf"
proof -
  have "fl (2 ^ 1024) \<le> fl x" using assms by (intro fl_mono) simp_all
  then have "2 ^ 1024 \<le> fl x" by (simp only: fl_pow2)
  then show ?thesis by (simp add: fround_def Let_def)
qed

text \<open>
  A sample the derivation has no record for: \<open>total_blocks = 0\<close> and a \<open>used_blocks\<close> of
  \<open>10 ^ 309\<close>, which is beyond binary64. The product \<open>used_blocks * read_weight\<close> raises
  \<open>OverflowError\<close>, which \<open>get_lvm_cache_stats\<close> does not catch.
\<close>

theorem derivation_overflow:
  "get_lvm_cache_stats 0 [0, 10 ^ 309, 0, 0, 0, 0, 0] = Inl OverflowError"
proof -
  have "(2::rat) ^ 1024 \<le> of_int (10 ^ 309)" by simp
  then have "fround (of_int (10 ^ 309)) = PInf" by (rule fround_overflow)
  then have "float_of_int (10 ^ 309) = Inl OverflowError" by (simp add: float_of_int_def)
  then show ?thesis unfolding derivation_unfold by (simp add: except_none_def)
qed

text \<open>
  Claim C1, as the code has it. On any seven counters the derivation returns a record or
  raises \<open>OverflowError\<close>, and nothing else; it returns a record whenever no counter is
  negative and \<open>used_blocks\<close> and \<open>dirty_blocks\<close> are at most \<open>2 ^ 1023\<close>. In every record
  it returns, a ratio whose denominator is zero is 0 and no percentage is a NaN: with
  \<open>total_blocks = 0\<close> the usage and dirty percentages are 0 and the block size is 4096;
  with \<open>total_ops = 0\<close>, \<open>total_reads = 0\<close> or \<open>total_writes = 0\<close> the matching hit ratio
  is 0.
\<close>

theorem derivation_zero_denominators:
  fixes pool tb ub db rh rm wh wm :: int and extra :: "int list"
  shows
   "(get_lvm_cache_stats pool (tb # ub # db # rh # rm # wh # wm # extra) = Inl OverflowError
     \<or> (\<exists>s. get_lvm_cache_stats pool (tb # ub # db # rh # rm # wh # wm # extra) = Inr (Some s)))
    \<and> (0 \<le> tb \<and> 0 \<le> ub \<and> ub \<le> 2 ^ 1023 \<and> 0 \<le> db \<and> db \<le> 2 ^ 1023
        \<and> 0 \<le> rh \<and> 0 \<le> rm \<and> 0 \<le> wh \<and> 0 \<le> wm
       \<longrightarrow> (\<exists>s. get_lvm_cache_stats pool (tb # ub # db # rh # rm # wh # wm # extra)
                 = Inr (Some s)))
    \<and> (\<forall>s. get_lvm_cache_stats pool (tb # ub # db # rh # rm # wh # wm # extra) = Inr (Some s)
       \<longrightarrow> total_reads s = rh + rm \<and> total_writes s = wh + wm
         \<and> total_ops s = rh + rm + (wh + wm)
         \<and> (tb = 0 \<longrightarrow> cache_usage_pct s = Fin 0 \<and> dirty_ratio_pct s = Fin 0
                       \<and> block_size s = 4096)
         \<and> (total_ops s = 0 \<longrightarrow> hit_ratio_pct s = Fin 0)
         \<and> (total_reads s = 0 \<longrightarrow> read_hit_ratio_pct s = Fin 0)
         \<and> (total_writes s = 0 \<longrightarrow> write_hit_ratio_pct s = Fin 0)
         \<and> cache_usage_pct s \<noteq> NaN \<and> dirty_ratio_pct s \<noteq> NaN \<and> hit_ratio_pct s \<noteq> NaN
         \<and> read_hit_ratio_pct s \<noteq> NaN \<and> write_hit_ratio_pct s \<noteq> NaN)"
proof -
  let ?res = "get_lvm_cache_stats pool (tb # ub # db # rh # rm # wh # wm # extra)"
  note cases = derivation_cases [of pool tb ub db rh rm wh wm extra]
  have a: "?res = Inl OverflowError \<or> (\<exists>s. ?res = Inr (Some s))"
    using cases by blast
  have b: "0 \<le> tb \<and> 0 \<le> ub \<and> ub \<le> 2 ^ 1023 \<and> 0 \<le> db \<and> db \<le> 2 ^ 1023
        \<and> 0 \<le> rh \<and> 0 \<le> rm \<and> 0 \<le> wh \<and> 0 \<le> wm
       \<longrightarrow> (\<exists>s. ?res = Inr (Some s))"
    by (simp add: derivation_value)
  have c: "\<forall>s. ?res = Inr (Some s)
       \<longrightarrow> total_reads s = rh + rm \<and> total_writes s = wh + wm
         \<and> total_ops s = rh + rm + (wh + wm)
         \<and> (tb = 0 \<longrightarrow> cache_usage_pct s = Fin 0 \<and> dirty_ratio_pct s = Fin 0
                       \<and> block_size s = 4096)
         \<and> (total_ops s = 0 \<longrightarrow> hit_ratio_pct s = Fin 0)
         \<and> (total_reads s = 0 \<longrightarrow> read_hit_ratio_pct s = Fin 0)
         \<and> (total_writes s = 0 \<longrightarrow> write_hit_ratio_pct s = Fin 0)
         \<and> cache_usage_pct s \<noteq> NaN \<and> dirty_ratio_pct s \<noteq> NaN \<and> hit_ratio_pct s \<noteq> NaN
         \<and> read_hit_ratio_pct s \<noteq> NaN \<and> write_hit_ratio_pct s \<noteq> NaN"
    using cases by auto
  show ?thesis by (rule conjI [OF a conjI [OF b c]])
qed

theorem derivation_zero_denominators_witness:
  "\<exists>s. get_lvm_cache_stats 0 [0, 5, 0, 0, 0, 0, 0] = Inr (Some s)
     \<and> total_reads s = 0 \<and> total_writes s = 0 \<and> total_ops s = 0
     \<and> cache_usage_pct s = Fin 0 \<and> dirty_ratio_pct s = Fin 0 \<and> block_size s = 4096
     \<and> hit_ratio_pct s = Fin 0 \<and> read_hit_ratio_pct s = Fin 0
     \<and> write_hit_ratio_pct s = Fin 0"
proof -
  note inst = derivation_zero_denominators [of 0 0 5 0 0 0 0 0 "[]"]
  from inst obtain s where s: "get_lvm_cache_stats 0 [0, 5, 0, 0, 0, 0, 0] = Inr (Some s)"
    by auto
  with inst have "total_reads s = 0 \<and> total_writes s = 0 \<and> total_ops s = 0
     \<and> cache_usage_pct s = Fin 0 \<and> dirty_ratio_pct s = Fin 0 \<and> block_size s = 4096
     \<and> hit_ratio_pct s = Fin 0 \<and> read_hit_ratio_pct s = Fin 0
     \<and> write_hit_ratio_pct s = Fin 0"
    by auto
  with s show ?thesis by (intro exI [of _ s]) simp
qed

lemma int_pow2_53_le_1023: "n \<le> 2 ^ 53 \<Longrightarrow> n \<le> (2::int) ^ 1023"
proof -
  assume "n \<le> 2 ^ 53"
  moreover have "(2::int) ^ 53 \<le> 2 ^ 1023" by (rule power_increasing) simp_all
  ultimately show ?thesis by (rule order_trans)
qed

lemma fl_7_10: "fl (7 / 10) = 6305039478318694 / 2 ^ 53"
  by (subst fl_eval_lt1 [where e = 1]) (simp_all add: rne_def Let_def)

lemma fl_90_weight: "fl (90 * (6305039478318694 / 2 ^ 53)) = 8866461766385663 / 2 ^ 47"
  by (subst fl_eval_ge1 [where e = 5]) (simp_all add: rne_def Let_def)

lemma fl_tie_to_even: "fl (2 ^ 53 + 3) = 2 ^ 53 + 4"
  by (subst fl_eval_ge1 [where e = 53]) (simp_all add: rne_def Let_def)

lemma fl_after_tie: "fl (2 ^ 53 + 4) = 2 ^ 53 + 4"
  by (subst fl_eval_ge1 [where e = 53]) (simp_all add: rne_def Let_def)

text \<open>
  Two samples on which the estimates are not what the exact formula gives. With
  \<open>used_blocks = 90\<close>, 7 reads and 3 writes, the code has 62 read blocks: the weight 0.7 is
  rounded down to a binary64 number and so is the product, whose exact value is 63. With
  \<open>used_blocks = 2 ^ 53 + 3\<close> and reads only, \<open>used_blocks\<close> is converted to the float
  \<open>2 ^ 53 + 4\<close>, and the write estimate is \<open>- 1\<close>.
\<close>

theorem estimate_rounding_counterexample:
  "map_sum id (map_option estimated_read_blocks)
     (get_lvm_cache_stats 409600 [100, 90, 0, 7, 0, 3, 0]) = Inr (Some 62)
   \<and> \<lfloor>(90::rat) * (7 / 10)\<rfloor> = 63
   \<and> map_sum id (map_option estimated_write_blocks)
     (get_lvm_cache_stats 0 [0, 2 ^ 53 + 3, 0, 1, 0, 0, 0]) = Inr (Some (- 1))"
proof -
  have w: "read_weight_of (7 + 0) (7 + 0 + (3 + 0)) = 6305039478318694 / 2 ^ 53"
    using fl_7_10 by (simp add: read_weight_of_def)
  have u: "fl (of_int 90) = of_int 90" by (rule fl_of_int) simp_all
  define x where "x = fl (fl (of_int 90) * read_weight_of (7 + 0) (7 + 0 + (3 + 0)))"
  have "x = 8866461766385663 / 2 ^ 47"
    unfolding x_def w u using fl_90_weight by simp
  then have "\<lfloor>x\<rfloor> = \<lfloor>8866461766385663 / 2 ^ 47 :: rat\<rfloor>" by (simp only:)
  also have "\<dots> = 62" by simp
  finally have a: "\<lfloor>fl (fl (of_int 90) * read_weight_of (7 + 0) (7 + 0 + (3 + 0)))\<rfloor> = 62"
    unfolding x_def .
  have "get_lvm_cache_stats 409600 [100, 90, 0, 7, 0, 3, 0] = Inr (Some s) \<Longrightarrow>
      estimated_read_blocks s = 62" for s
    by (subst (asm) derivation_value) (use a in auto)
  moreover have "\<exists>s. get_lvm_cache_stats 409600 [100, 90, 0, 7, 0, 3, 0] = Inr (Some s)"
    by (subst derivation_value) simp_all
  ultimately have first: "map_sum id (map_option estimated_read_blocks)
     (get_lvm_cache_stats 409600 [100, 90, 0, 7, 0, 3, 0]) = Inr (Some 62)"
    by auto
  have w': "read_weight_of (1 + 0) (1 + 0 + (0 + 0)) = 1"
    by (simp add: read_weight_of_def)
  have u': "fl (of_int (2 ^ 53 + 3)) = 2 ^ 53 + 4"
    using fl_tie_to_even by simp
  define y where "y = fl (fl (of_int (2 ^ 53 + 3)) * read_weight_of (1 + 0) (1 + 0 + (0 + 0)))"
  have "y = of_int (2 ^ 53 + 4)"
    unfolding y_def w' u' using fl_after_tie by simp
  then have "\<lfloor>y\<rfloor> = \<lfloor>of_int (2 ^ 53 + 4) :: rat\<rfloor>" by (simp only:)
  also have "\<dots> = 2 ^ 53 + 4" by (simp only: floor_of_int)
  finally have b:
    "\<lfloor>fl (fl (of_int (2 ^ 53 + 3)) * read_weight_of (1 + 0) (1 + 0 + (0 + 0)))\<rfloor> = 2 ^ 53 + 4"
    unfolding y_def .
  have r: "(2::int) ^ 53 + 3 \<le> 2 ^ 1023" by simp
  have "get_lvm_cache_stats 0 [0, 2 ^ 53 + 3, 0, 1, 0, 0, 0] = Inr (Some s) \<Longrightarrow>
      estimated_write_blocks s = - 1" for s
    by (subst (asm) derivation_value) (use b r in auto)
  moreover have "\<exists>s. get_lvm_cache_stats 0 [0, 2 ^ 53 + 3, 0, 1, 0, 0, 0] = Inr (Some s)"
    by (subst derivation_value) (use r in simp_all)
  ultimately have second: "map_sum id (map_option estimated_write_blocks)
     (get_lvm_cache_stats 0 [0, 2 ^ 53 + 3, 0, 1, 0, 0, 0]) = Inr (Some (- 1))"
    by auto
  have "\<lfloor>(90::rat) * (7 / 10)\<rfloor> = 63" by simp
  with first second show ?thesis by (intro conjI)
qed

text \<open>
  Claim C2, as the code has it. In every record the derivation returns, the two
  estimates add up to \<open>used_blocks\<close>. For a sample whose counters are not negative, with
  \<open>used_blocks\<close> at most \<open>2 ^ 53\<close>, \<open>estimated_read_blocks\<close> is the floor of the binary64
  product of \<open>used_blocks\<close> and \<open>read_weight\<close>, where \<open>read_weight\<close> is the binary64
  quotient \<open>total_reads / total_ops\<close>, and one half when \<open>total_ops = 0\<close>;
  \<open>estimated_write_blocks\<close> is \<open>used_blocks\<close> minus that, and neither is negative.
\<close>

theorem estimated_blocks_partition:
  fixes pool tb ub db rh rm wh wm :: int and extra :: "int list"
  shows
   "(get_lvm_cache_stats pool (tb # ub # db # rh # rm # wh # wm # extra) = Inl OverflowError
     \<or> (\<exists>s. get_lvm_cache_stats pool (tb # ub # db # rh # rm # wh # wm # extra) = Inr (Some s)
          \<and> estimated_write_blocks s = ub - estimated_read_blocks s
          \<and> estimated_read_blocks s + estimated_write_blocks s = ub))
    \<and> (0 \<le> ub \<and> ub \<le> 2 ^ 53 \<and> 0 \<le> db \<and> db \<le> 2 ^ 1023
        \<and> 0 \<le> rh \<and> 0 \<le> rm \<and> 0 \<le> wh \<and> 0 \<le> wm
       \<longrightarrow> (\<exists>s. get_lvm_cache_stats pool (tb # ub # db # rh # rm # wh # wm # extra)
                 = Inr (Some s)
            \<and> estimated_read_blocks s =
                \<lfloor>fl (of_int ub * (if 0 < rh + rm + (wh + wm)
                                    then fl (of_int (rh + rm) / of_int (rh + rm + (wh + wm)))
                                    else 1 / 2))\<rfloor>
            \<and> estimated_write_blocks s = ub - estimated_read_blocks s
            \<and> estimated_read_blocks s + estimated_write_blocks s = ub
            \<and> 0 \<le> estimated_read_blocks s \<and> 0 \<le> estimated_write_blocks s))"
proof -
  let ?res = "get_lvm_cache_stats pool (tb # ub # db # rh # rm # wh # wm # extra)"
  let ?w = "read_weight_of (rh + rm) (rh + rm + (wh + wm))"
  have a: "?res = Inl OverflowError
     \<or> (\<exists>s. ?res = Inr (Some s)
          \<and> estimated_write_blocks s = ub - estimated_read_blocks s
          \<and> estimated_read_blocks s + estimated_write_blocks s = ub)"
    using derivation_cases [of pool tb ub db rh rm wh wm extra] by auto
  have b: "\<exists>s. ?res = Inr (Some s)
            \<and> estimated_read_blocks s =
                \<lfloor>fl (of_int ub * (if 0 < rh + rm + (wh + wm)
                                    then fl (of_int (rh + rm) / of_int (rh + rm + (wh + wm)))
                                    else 1 / 2))\<rfloor>
            \<and> estimated_write_blocks s = ub - estimated_read_blocks s
            \<and> estimated_read_blocks s + estimated_write_blocks s = ub
            \<and> 0 \<le> estimated_read_blocks s \<and> 0 \<le> estimated_write_blocks s"
    if range: "0 \<le> ub \<and> ub \<le> 2 ^ 53 \<and> 0 \<le> db \<and> db \<le> 2 ^ 1023
        \<and> 0 \<le> rh \<and> 0 \<le> rm \<and> 0 \<le> wh \<and> 0 \<le> wm"
  proof -
    from range have ub: "0 \<le> ub" "ub \<le> 2 ^ 53" by simp_all
    from ub(2) have ub': "ub \<le> 2 ^ 1023" by (rule int_pow2_53_le_1023)
    from range have r: "0 \<le> rh + rm" "rh + rm \<le> rh + rm + (wh + wm)" by simp_all
    note w = read_weight_unit [OF r]
    have u: "fl (of_int ub) = of_int ub" using ub by (rule fl_of_int)
    have p0: "0 \<le> of_int ub * ?w" using ub(1) w(1) by simp
    have "of_int ub * ?w \<le> of_int ub * 1"
      using ub(1) w(2) by (intro mult_left_mono) simp_all
    then have p1: "of_int ub * ?w \<le> of_int ub" by simp
    have e0: "0 \<le> fl (of_int ub * ?w)" using p0 by (rule fl_nonneg)
    have e1: "fl (of_int ub * ?w) \<le> of_int ub" using p0 p1 ub(2) by (rule fl_le_int)
    have f0: "0 \<le> \<lfloor>fl (of_int ub * ?w)\<rfloor>" using e0 by simp
    have "\<lfloor>fl (of_int ub * ?w)\<rfloor> \<le> \<lfloor>(of_int ub :: rat)\<rfloor>" using e1 by (rule floor_mono)
    then have f1: "\<lfloor>fl (of_int ub * ?w)\<rfloor> \<le> ub" by simp
    have "?res = Inr (Some s) \<Longrightarrow>
        estimated_read_blocks s = \<lfloor>fl (of_int ub * ?w)\<rfloor>
        \<and> estimated_write_blocks s = ub - \<lfloor>fl (of_int ub * ?w)\<rfloor>" for s
      by (subst (asm) derivation_value) (use range ub' u in auto)
    moreover have "\<exists>s. ?res = Inr (Some s)"
      by (subst derivation_value) (use range ub' in simp_all)
    ultimately obtain s where s: "?res = Inr (Some s)"
      "estimated_read_blocks s = \<lfloor>fl (of_int ub * ?w)\<rfloor>"
      "estimated_write_blocks s = ub - \<lfloor>fl (of_int ub * ?w)\<rfloor>"
      by blast
    have "?w = (if 0 < rh + rm + (wh + wm)
                then fl (of_int (rh + rm) / of_int (rh + rm + (wh + wm))) else 1 / 2)"
      by (simp only: read_weight_of_def)
    with s f0 f1 show ?thesis by (intro exI [of _ s]) simp
  qed
  show ?thesis using a b by blast
qed

theorem estimated_blocks_partition_witness:
  "\<exists>s. get_lvm_cache_stats 4096000 [1000, 500, 50, 80, 20, 60, 40] = Inr (Some s)
     \<and> estimated_read_blocks s = \<lfloor>fl (500 * fl (100 / 200))\<rfloor>
     \<and> estimated_read_blocks s + estimated_write_blocks s = 500
     \<and> 0 \<le> estimated_read_blocks s \<and> 0 \<le> estimated_write_blocks s"
proof -
  have "(500::int) \<le> 2 ^ 53" "(50::int) \<le> 2 ^ 1023" by simp_all
  with estimated_blocks_partition [of 4096000 1000 500 50 80 20 60 40 "[]"]
  obtain s where "get_lvm_cache_stats 4096000 [1000, 500, 50, 80, 20, 60, 40] = Inr (Some s)"
    and "estimated_read_blocks s
       = \<lfloor>fl (of_int 500 * (if (0::int) < 80 + 20 + (60 + 40)
                             then fl (of_int (80 + 20) / of_int (80 + 20 + (60 + 40)))
                             else 1 / 2))\<rfloor>"
    and "estimated_read_blocks s + estimated_write_blocks s = 500"
    and "0 \<le> estimated_read_blocks s" and "0 \<le> estimated_write_blocks s"
    by auto
  then show ?thesis by (intro exI [of _ s]) simp
qed

text \<open>
  Not every sample has a positive block size: a pool of 1000 bytes reported with 4096
  blocks gives the block size 0.
\<close>

theorem block_size_counterexample:
  "map_sum id (map_option block_size) (get_lvm_cache_stats 1000 [4096, 0, 0, 0, 0, 0, 0])
     = Inr (Some 0)"
  by (subst derivation_value) simp_all

text \<open>
  Claim C7, as the code has it. In every record the derivation returns, and it returns
  one whenever the counters are in range, the derived \<open>block_size\<close> is \<open>pool_size_bytes\<close>
  divided by \<open>total_blocks\<close> with floor division when \<open>total_blocks > 0\<close>, and 4096
  otherwise. It is not always positive: for a non-negative pool size it is non-negative,
  and with \<open>total_blocks > 0\<close> it is positive exactly when the pool has at least one byte
  per block.
\<close>

theorem block_size_floor_division:
  fixes pool tb ub db rh rm wh wm :: int and extra :: "int list"
  shows
   "(get_lvm_cache_stats pool (tb # ub # db # rh # rm # wh # wm # extra) = Inl OverflowError
     \<or> (\<exists>s. get_lvm_cache_stats pool (tb # ub # db # rh # rm # wh # wm # extra) = Inr (Some s)
          \<and> block_size s = (if 0 < tb then pool div tb else 4096)
          \<and> (0 \<le> pool \<longrightarrow> 0 \<le> block_size s)
          \<and> (0 < tb \<longrightarrow> (0 < block_size s \<longleftrightarrow> tb \<le> pool))))
    \<and> (0 \<le> ub \<and> ub \<le> 2 ^ 1023 \<and> 0 \<le> db \<and> db \<le> 2 ^ 1023
        \<and> 0 \<le> rh \<and> 0 \<le> rm \<and> 0 \<le> wh \<and> 0 \<le> wm
       \<longrightarrow> (\<exists>s. get_lvm_cache_stats pool (tb # ub # db # rh # rm # wh # wm # extra)
                 = Inr (Some s)
            \<and> block_size s = (if 0 < tb then pool div tb else 4096)
            \<and> (0 \<le> pool \<longrightarrow> 0 \<le> block_size s)
            \<and> (0 < tb \<longrightarrow> (0 < block_size s \<longleftrightarrow> tb \<le> pool))))"
proof -
  let ?res = "get_lvm_cache_stats pool (tb # ub # db # rh # rm # wh # wm # extra)"
  have a: "?res = Inl OverflowError
     \<or> (\<exists>s. ?res = Inr (Some s)
          \<and> block_size s = (if 0 < tb then pool div tb else 4096)
          \<and> (0 \<le> pool \<longrightarrow> 0 \<le> block_size s)
          \<and> (0 < tb \<longrightarrow> (0 < block_size s \<longleftrightarrow> tb \<le> pool)))"
    using derivation_cases [of pool tb ub db rh rm wh wm extra]
    by (auto simp: pos_imp_zdiv_nonneg_iff pos_imp_zdiv_pos_iff)
  have "?res \<noteq> Inl OverflowError"
    if "0 \<le> ub \<and> ub \<le> 2 ^ 1023 \<and> 0 \<le> db \<and> db \<le> 2 ^ 1023
        \<and> 0 \<le> rh \<and> 0 \<le> rm \<and> 0 \<le> wh \<and> 0 \<le> wm"
    by (subst derivation_value) (use that in simp_all)
  with a show ?thesis by blast
qed

theorem block_size_floor_division_witness:
  "\<exists>s. get_lvm_cache_stats 4096000 [1000, 500, 50, 80, 20, 60, 40] = Inr (Some s)
     \<and> block_size s = 4096 \<and> 0 \<le> block_size s \<and> 0 < block_size s"
proof -
  have "(500::int) \<le> 2 ^ 1023" "(50::int) \<le> 2 ^ 1023" by simp_all
  with block_size_floor_division [of 4096000 1000 500 50 80 20 60 40 "[]"]
  obtain s where "get_lvm_cache_stats 4096000 [1000, 500, 50, 80, 20, 60, 40] = Inr (Some s)"
    and "block_size s = 4096000 div 1000"
    and "0 \<le> block_size s" and "0 < block_size s"
    by auto
  then show ?thesis by (intro exI [of _ s]) simp
qed

section \<open>Properties of the bars\<close>

lemma seq_mul_single: "seq_mul [c] n = replicate (nat n) c"
  by (induction "nat n" arbitrary: n) (simp_all add: seq_mul_def)

lemma visible_replicate:
  "g \<noteq> ESC \<Longrightarrow> visible False (replicate n g @ rest) = replicate n g @ visible False rest"
  by (induction n) simp_all

lemma visible_color:
  "colors k = Some c \<Longrightarrow> visible False (c @ rest) = visible False rest"
  by (auto simp: colors_def ascii_def ESC_def split: if_splits)

lemma colors_reset: "getitem colors ''reset'' = Inr (ESC # ascii ''[0m'')"
  by (simp add: getitem_def colors_def)

lemma colors_green: "getitem colors ''green'' = Inr (ESC # ascii ''[92m'')"
  by (simp add: getitem_def colors_def)

lemma colors_red: "getitem colors ''red'' = Inr (ESC # ascii ''[91m'')"
  by (simp add: getitem_def colors_def)

lemma glyph_neq: "FULL_BLOCK \<noteq> ESC" "LIGHT_SHADE \<noteq> ESC" "SPACE \<noteq> ESC" "BLACK_CIRCLE \<noteq> ESC"
  by (simp_all add: FULL_BLOCK_def LIGHT_SHADE_def SPACE_def BLACK_CIRCLE_def ESC_def)

lemma visible_code: "visible False (ESC # ascii ''[0m'' @ rest) = visible False rest"
  "visible False (ESC # ascii ''[92m'' @ rest) = visible False rest"
  "visible False (ESC # ascii ''[91m'' @ rest) = visible False rest"
  by (simp_all add: ascii_def)

lemma fdiv_fin: "y \<noteq> 0 \<Longrightarrow> fdiv (Fin x) (Fin y) = Inr (fround (x / y))"
  by (simp add: fdiv_def)

lemma fne_fin [simp]: "fne (Fin x) (Fin y) \<longleftrightarrow> x \<noteq> y"
  by (simp add: fne_def)

lemma bar_graph_shape:
  "create_bar_graph os self v m (Some w) color =
     (case bar_filled v m w of
        Inl e \<Rightarrow> Inl e
      | Inr f \<Rightarrow> Inr ((case colors color of None \<Rightarrow> [] | Some c \<Rightarrow> c)
          @ replicate (nat f) FULL_BLOCK
          @ replicate (nat (w - f)) LIGHT_SHADE
          @ ESC # ascii ''[0m'', self))"
  by (simp add: create_bar_graph_def default_width_def and_then_def
      seq_mul_single colors_reset split: sum.split)

lemma visible_bar:
  "visible False ((case colors color of None \<Rightarrow> [] | Some c \<Rightarrow> c)
          @ replicate a FULL_BLOCK @ replicate b LIGHT_SHADE @ ESC # ascii ''[0m'')
   = replicate a FULL_BLOCK @ replicate b LIGHT_SHADE"
proof -
  have "visible False (replicate a FULL_BLOCK @ replicate b LIGHT_SHADE @ ESC # ascii ''[0m'' @ [])
     = replicate a FULL_BLOCK @ replicate b LIGHT_SHADE"
    unfolding visible_replicate [OF glyph_neq(1)] visible_replicate [OF glyph_neq(2)] visible_code
    by simp
  then show ?thesis
    by (cases "colors color") (simp_all add: visible_color)
qed

text \<open>
  The proportion of a value within its maximum, scaled to a width of at most \<open>2 ^ 53\<close>:
  the quotient and the product are each rounded, and the truncated product is within the
  width.
\<close>

lemma scaled_unit:
  fixes q :: rat
  assumes "0 \<le> q" "q \<le> 1" "0 \<le> w" "w \<le> 2 ^ 53"
  shows "and_then (float_of_int w) (\<lambda>c. int_of_float (fmul (Fin q) c))
      = Inr \<lfloor>fl (q * of_int w)\<rfloor>"
    and "0 \<le> \<lfloor>fl (q * of_int w)\<rfloor>" and "\<lfloor>fl (q * of_int w)\<rfloor> \<le> w"
proof -
  have p0: "0 \<le> q * of_int w" using assms(1,3) by simp
  have "q * of_int w \<le> 1 * of_int w" using assms(2,3) by (intro mult_right_mono) simp_all
  then have p1: "q * of_int w \<le> of_int w" by simp
  have e0: "0 \<le> fl (q * of_int w)" using p0 by (rule fl_nonneg)
  have e1: "fl (q * of_int w) \<le> of_int w" using p0 p1 assms(4) by (rule fl_le_int)
  show "0 \<le> \<lfloor>fl (q * of_int w)\<rfloor>" using e0 by simp
  have "\<lfloor>fl (q * of_int w)\<rfloor> \<le> \<lfloor>(of_int w :: rat)\<rfloor>" using e1 by (rule floor_mono)
  then show "\<lfloor>fl (q * of_int w)\<rfloor> \<le> w" by simp
  have "(of_int w :: rat) \<le> 2 ^ 53" using assms(4) by (rule int_le_pow2_rat)
  then have "(of_int w :: rat) \<le> 2 ^ 1023" using pow2_53_le_1023 by (rule order_trans)
  with p1 have "q * of_int w \<le> 2 ^ 1023" by (rule order_trans)
  with p0 have "fround (q * of_int w) = Fin (fl (q * of_int w))" by (rule fround_range)
  then show "and_then (float_of_int w) (\<lambda>c. int_of_float (fmul (Fin q) c))
      = Inr \<lfloor>fl (q * of_int w)\<rfloor>"
    using e0 by (simp add: float_of_int_small [OF assms(3,4)] int_of_float_def int_of_nonneg)
qed

lemma fill_in_range:
  fixes x y :: rat
  assumes "0 < y" "0 \<le> x" "x \<le> y" "0 < w" "w \<le> 2 ^ 53"
  shows "bar_filled (Fin x) (Fin y) w = Inr \<lfloor>fl (fl (x / y) * of_int w)\<rfloor>"
    and "0 \<le> \<lfloor>fl (fl (x / y) * of_int w)\<rfloor>" and "\<lfloor>fl (fl (x / y) * of_int w)\<rfloor> \<le> w"
proof -
  have q0: "0 \<le> x / y" and q1: "x / y \<le> 1" using assms by (simp_all add: divide_le_eq)
  have f0: "0 \<le> fl (x / y)" using q0 by (rule fl_nonneg)
  have f1: "fl (x / y) \<le> 1" using q0 q1 by (rule fl_le_one)
  have w0: "0 \<le> w" using assms(4) by simp
  note s = scaled_unit [OF f0 f1 w0 assms(5)]
  from s(2) show "0 \<le> \<lfloor>fl (fl (x / y) * of_int w)\<rfloor>" .
  from s(3) show "\<lfloor>fl (fl (x / y) * of_int w)\<rfloor> \<le> w" .
  have "fdiv (Fin x) (Fin y) = Inr (Fin (fl (x / y)))"
    using assms(1) by (simp add: fdiv_fin fround_unit [OF q0 q1])
  then show "bar_filled (Fin x) (Fin y) w = Inr \<lfloor>fl (fl (x / y) * of_int w)\<rfloor>"
    using assms(1) s(1) by (simp add: bar_filled_def)
qed

lemma fl_58_100: "fl (58 / 100) = 5224175567749775 / 2 ^ 53"
  by (subst fl_eval_lt1 [where e = 1]) (simp_all add: rne_def Let_def)

lemma fl_58_scaled: "fl (5224175567749775 / 2 ^ 53 * 50) = 8162774324609023 / 2 ^ 48"
  by (subst fl_eval_ge1 [where e = 4]) (simp_all add: rne_def Let_def)

text \<open>
  The filled count is not clamped: the value 200 against the maximum 100 on a bar of
  width 10 gives 20 filled cells, and the bar shows 20 solid cells. Nor is it the floor
  of the exact proportion: 58 against 100 on a bar of width 50 gives 28 filled cells,
  where the exact proportion is 29.
\<close>

theorem bar_graph_clamp_counterexample:
  "bar_filled (Fin 200) (Fin 100) 10 = Inr 20
   \<and> map_sum id (\<lambda>(bar, _). visible False bar)
        (create_bar_graph terminal_80x24 default_monitor (Fin 200) (Fin 100) (Some 10) ''green'')
      = Inr (replicate 20 FULL_BLOCK)
   \<and> bar_filled (Fin 58) (Fin 100) 50 = Inr 28
   \<and> \<lfloor>(58::rat) / 100 * 50\<rfloor> = 29"
proof -
  have f: "bar_filled (Fin 200) (Fin 100) 10 = Inr 20"
    by (simp add: bar_filled_def fdiv_fin fround_numeral float_of_int_numeral
        int_of_float_def int_of_numeral)
  have v: "map_sum id (\<lambda>(bar, _). visible False bar)
        (create_bar_graph terminal_80x24 default_monitor (Fin 200) (Fin 100) (Some 10) ''green'')
      = Inr (replicate 20 FULL_BLOCK)"
    unfolding bar_graph_shape f using visible_bar [of "''green''" 20 0] by simp
  define x where "x = fl (fl (58 / 100) * of_int 50)"
  have "x = 8162774324609023 / 2 ^ 48"
    unfolding x_def fl_58_100 using fl_58_scaled by simp
  then have "\<lfloor>x\<rfloor> = \<lfloor>8162774324609023 / 2 ^ 48 :: rat\<rfloor>" by (simp only:)
  also have "\<dots> = 28" by simp
  finally have "\<lfloor>fl (fl (58 / 100) * of_int 50)\<rfloor> = 28" unfolding x_def .
  then have g: "bar_filled (Fin 58) (Fin 100) 50 = Inr 28"
    by (subst fill_in_range(1)) simp_all
  have "\<lfloor>(58::rat) / 100 * 50\<rfloor> = 29" by simp
  with f v g show ?thesis by (intro conjI)
qed

text \<open>
  Claim C4, as the code has it. For a positive width the filled cell count is
  \<open>int(value / max_value * width)\<close> in binary64 arithmetic, truncated toward zero, and 0
  when \<open>max_value = 0\<close>; it is not clamped. The bar is the colour code, \<open>filled\<close> solid
  glyphs, \<open>width - filled\<close> empty glyphs (a negative count gives none) and the reset code;
  an exception of the count is the exception of the bar. The visible length is \<open>width\<close>
  exactly when \<open>0 \<le> filled \<le> width\<close>, which holds whenever \<open>0 \<le> value \<le> max_value\<close>
  and the width is at most \<open>2 ^ 53\<close>; there \<open>filled\<close> is the floor of the rounded product
  of the rounded quotient and the width.
\<close>

theorem bar_graph_unclamped:
  assumes "0 < w"
  shows "(\<forall>e. bar_filled v m w = Inl e \<longrightarrow>
            create_bar_graph os self v m (Some w) color = Inl e)
    \<and> (\<forall>filled. bar_filled v m w = Inr filled \<longrightarrow>
          (\<exists>bar. create_bar_graph os self v m (Some w) color = Inr (bar, self)
            \<and> bar = (case colors color of None \<Rightarrow> [] | Some c \<Rightarrow> c)
                 @ replicate (nat filled) FULL_BLOCK
                 @ replicate (nat (w - filled)) LIGHT_SHADE
                 @ ESC # ascii ''[0m''
            \<and> visible False bar
                 = replicate (nat filled) FULL_BLOCK @ replicate (nat (w - filled)) LIGHT_SHADE
            \<and> (int (length (visible False bar)) = w \<longleftrightarrow> 0 \<le> filled \<and> filled \<le> w)))
    \<and> bar_filled v (Fin 0) w = Inr 0
    \<and> (\<forall>x y. v = Fin x \<and> m = Fin y \<and> 0 < y \<and> 0 \<le> x \<and> x \<le> y \<and> w \<le> 2 ^ 53 \<longrightarrow>
          bar_filled v m w = Inr \<lfloor>fl (fl (x / y) * of_int w)\<rfloor>
          \<and> 0 \<le> \<lfloor>fl (fl (x / y) * of_int w)\<rfloor> \<and> \<lfloor>fl (fl (x / y) * of_int w)\<rfloor> \<le> w)"
proof -
  have a: "\<forall>e. bar_filled v m w = Inl e \<longrightarrow>
            create_bar_graph os self v m (Some w) color = Inl e"
    by (simp add: bar_graph_shape)
  have b: "\<exists>bar. create_bar_graph os self v m (Some w) color = Inr (bar, self)
            \<and> bar = (case colors color of None \<Rightarrow> [] | Some c \<Rightarrow> c)
                 @ replicate (nat filled) FULL_BLOCK
                 @ replicate (nat (w - filled)) LIGHT_SHADE
                 @ ESC # ascii ''[0m''
            \<and> visible False bar
                 = replicate (nat filled) FULL_BLOCK @ replicate (nat (w - filled)) LIGHT_SHADE
            \<and> (int (length (visible False bar)) = w \<longleftrightarrow> 0 \<le> filled \<and> filled \<le> w)"
    if f: "bar_filled v m w = Inr filled" for filled
  proof -
    let ?bar = "(case colors color of None \<Rightarrow> [] | Some c \<Rightarrow> c)
          @ replicate (nat filled) FULL_BLOCK @ replicate (nat (w - filled)) LIGHT_SHADE
          @ ESC # ascii ''[0m''"
    have shape: "create_bar_graph os self v m (Some w) color = Inr (?bar, self)"
      unfolding bar_graph_shape f by simp
    have vis: "visible False ?bar
         = replicate (nat filled) FULL_BLOCK @ replicate (nat (w - filled)) LIGHT_SHADE"
      by (rule visible_bar)
    have len: "int (length (visible False ?bar)) = w \<longleftrightarrow> 0 \<le> filled \<and> filled \<le> w"
      unfolding vis using assms by (simp del: of_nat_add) linarith
    from shape vis len show ?thesis by blast
  qed
  have c: "bar_filled v (Fin 0) w = Inr 0" by (simp add: bar_filled_def fne_def)
  have d: "\<forall>x y. v = Fin x \<and> m = Fin y \<and> 0 < y \<and> 0 \<le> x \<and> x \<le> y \<and> w \<le> 2 ^ 53 \<longrightarrow>
          bar_filled v m w = Inr \<lfloor>fl (fl (x / y) * of_int w)\<rfloor>
          \<and> 0 \<le> \<lfloor>fl (fl (x / y) * of_int w)\<rfloor> \<and> \<lfloor>fl (fl (x / y) * of_int w)\<rfloor> \<le> w"
    using assms fill_in_range by blast
  from b have b': "\<forall>filled. bar_filled v m w = Inr filled \<longrightarrow>
          (\<exists>bar. create_bar_graph os self v m (Some w) color = Inr (bar, self)
            \<and> bar = (case colors color of None \<Rightarrow> [] | Some c \<Rightarrow> c)
                 @ replicate (nat filled) FULL_BLOCK
                 @ replicate (nat (w - filled)) LIGHT_SHADE
                 @ ESC # ascii ''[0m''
            \<and> visible False bar
                 = replicate (nat filled) FULL_BLOCK @ replicate (nat (w - filled)) LIGHT_SHADE
            \<and> (int (length (visible False bar)) = w \<longleftrightarrow> 0 \<le> filled \<and> filled \<le> w))"
    by blast
  show ?thesis by (rule conjI [OF a conjI [OF b' conjI [OF c d]]])
qed

theorem bar_graph_unclamped_witness:
  "bar_filled (Fin 50) (Fin 100) 10 = Inr 5
   \<and> create_bar_graph terminal_80x24 default_monitor (Fin 50) (Fin 100) (Some 10) ''green''
       = Inr (ESC # ascii ''[92m'' @ replicate 5 FULL_BLOCK @ replicate 5 LIGHT_SHADE
              @ ESC # ascii ''[0m'', default_monitor)
   \<and> bar_filled (Fin 50) (Fin 0) 10 = Inr 0"
proof -
  note inst = bar_graph_unclamped [of 10 "Fin 50" "Fin 100" terminal_80x24 default_monitor
    "''green''"]
  have "fl (fl (50 / 100) * of_int 10) = of_int 5"
    by (simp add: fl_half fl_numeral)
  then have five: "\<lfloor>fl (fl (50 / 100) * of_int 10)\<rfloor> = 5" by (simp only: floor_of_int)
  from inst have "bar_filled (Fin 50) (Fin 100) 10 = Inr \<lfloor>fl (fl (50 / 100) * of_int 10)\<rfloor>"
    by simp
  then have f: "bar_filled (Fin 50) (Fin 100) 10 = Inr 5" by (simp only: five)
  with inst have g: "create_bar_graph terminal_80x24 default_monitor (Fin 50) (Fin 100)
       (Some 10) ''green''
       = Inr (ESC # ascii ''[92m'' @ replicate 5 FULL_BLOCK @ replicate 5 LIGHT_SHADE
              @ ESC # ascii ''[0m'', default_monitor)"
    by (simp add: colors_def)
  from bar_graph_unclamped [of 10 "Fin 50" "Fin 0" terminal_80x24 default_monitor "''green''"]
  have "bar_filled (Fin 50) (Fin 0) 10 = Inr 0" by simp
  with f g show ?thesis by (intro conjI)
qed

text \<open>
  Claim C10. With \<open>total_blocks = 0\<close> and a positive width the dual bar is exactly
  \<open>width\<close> empty glyphs, carries no colour code and is returned without an exception:
  the guard comes before the proportions, which would raise \<open>ZeroDivisionError\<close> there.
\<close>

theorem dual_bar_zero_total:
  assumes "0 < w"
  shows "create_dual_cache_bar os self rb wb 0 (Some w) = Inr (replicate (nat w) LIGHT_SHADE, self)
    \<and> int (length (replicate (nat w) LIGHT_SHADE)) = w
    \<and> ESC \<notin> set (replicate (nat w) LIGHT_SHADE)
    \<and> dual_portions rb wb 0 w = Inl ZeroDivisionError"
  using assms
  by (simp add: create_dual_cache_bar_def default_width_def seq_mul_single
      dual_portions_def int_truediv_zero glyph_neq [symmetric])

theorem dual_bar_zero_total_witness:
  "create_dual_cache_bar terminal_80x24 default_monitor 250 250 0 (Some 10)
     = Inr (replicate 10 LIGHT_SHADE, default_monitor)
   \<and> dual_portions 250 250 0 10 = Inl ZeroDivisionError"
  using dual_bar_zero_total [of 10 terminal_80x24 default_monitor 250 250] by simp

lemma dual_bar_shape:
  assumes "t \<noteq> 0" "dual_portions rb wb t w = Inr (r, c, e)"
  shows "create_dual_cache_bar os self rb wb t (Some w) =
     Inr (ESC # ascii ''[92m'' @ replicate (nat r) FULL_BLOCK @ ESC # ascii ''[0m''
          @ ESC # ascii ''[91m'' @ replicate (nat c) FULL_BLOCK @ ESC # ascii ''[0m''
          @ replicate (nat e) LIGHT_SHADE, self)"
  using assms
  by (simp add: create_dual_cache_bar_def default_width_def seq_mul_single
      colors_green colors_red colors_reset)

lemma visible_dual_bar:
  "visible False (ESC # ascii ''[92m'' @ replicate a FULL_BLOCK @ ESC # ascii ''[0m''
          @ ESC # ascii ''[91m'' @ replicate b FULL_BLOCK @ ESC # ascii ''[0m''
          @ replicate c LIGHT_SHADE)
   = replicate a FULL_BLOCK @ replicate b FULL_BLOCK @ replicate c LIGHT_SHADE"
proof -
  have "visible False (replicate c LIGHT_SHADE @ []) = replicate c LIGHT_SHADE"
    unfolding visible_replicate [OF glyph_neq(2)] by simp
  then show ?thesis
    unfolding visible_code visible_replicate [OF glyph_neq(1)] by simp
qed

lemma portion_small:
  assumes "0 \<le> k" "k \<le> 2 ^ 53" "0 \<le> w" "w \<le> 2 ^ 53" "0 \<le> k * w" "k * w \<le> 2 ^ 53"
    and "of_int a / of_int t = (of_int k :: rat)" "t \<noteq> 0"
  shows "and_then (int_truediv a t) (\<lambda>q.
         and_then (float_of_int w) (\<lambda>c. int_of_float (fmul q c))) = Inr (k * w)"
proof -
  have "fround (of_int k) = Fin (of_int k)" using assms(1,2) by (rule fround_of_int)
  then have q: "int_truediv a t = Inr (Fin (of_int k))"
    using assms(7,8) by (simp add: int_truediv_def)
  have c: "float_of_int w = Inr (Fin (of_int w))" using assms(3,4) by (rule float_of_int_small)
  have "fround (of_int (k * w)) = Fin (of_int (k * w))" using assms(5,6) by (rule fround_of_int)
  then have p: "fmul (Fin (of_int k)) (Fin (of_int w)) = Fin (of_int (k * w))" by simp
  show ?thesis
    unfolding q c and_then_Inr p by (rule int_of_float_int)
qed

text \<open>
  Claim C3 at \<open>create_dual_cache_bar(30, 20, 10, width=10)\<close>. The two proportions are 30
  and 20 cells; the step commented "Ensure we don't exceed width due to rounding"
  replaces the read segment by \<open>10 - 20 = - 10\<close>, so that the two add up to the width, and
  leaves the write segment at 20. A segment of negative size is drawn as no cell: the bar
  is the empty read segment, a write segment of 20 cells and no empty cell, 20 visible
  cells for a width of 10.
\<close>

theorem dual_bar_overrun:
  "dual_portions 30 20 10 10 = Inr (- 10, 20, 0)
   \<and> create_dual_cache_bar terminal_80x24 default_monitor 30 20 10 (Some 10)
      = Inr (ESC # ascii ''[92m'' @ ESC # ascii ''[0m''
             @ ESC # ascii ''[91m'' @ replicate 20 FULL_BLOCK @ ESC # ascii ''[0m'',
             default_monitor)
   \<and> map_sum id (\<lambda>(bar, _). int (length (visible False bar)))
        (create_dual_cache_bar terminal_80x24 default_monitor 30 20 10 (Some 10))
      = Inr 20"
proof -
  have r: "and_then (int_truediv 30 10) (\<lambda>q.
         and_then (float_of_int 10) (\<lambda>c. int_of_float (fmul q c))) = Inr (3 * 10)"
    by (rule portion_small) simp_all
  have c: "and_then (int_truediv 20 10) (\<lambda>q.
         and_then (float_of_int 10) (\<lambda>c. int_of_float (fmul q c))) = Inr (2 * 10)"
    by (rule portion_small) simp_all
  have p: "dual_portions 30 20 10 10 = Inr (- 10, 20, 0)"
    unfolding dual_portions_def r c by (simp add: Let_def)
  have ten: "(10::int) \<noteq> 0" by simp
  show ?thesis
    unfolding dual_bar_shape [OF ten p] using visible_dual_bar [of 0 20 0]
    by (simp add: p)
qed

section \<open>Properties of the layout\<close>

lemma widths_of_size:
  "update_terminal_size os self = Inr self' \<Longrightarrow>
   get_dynamic_widths os self =
     Inr ([''bar_width'' \<mapsto> max 20 (terminal_width self' - 32),
           ''graph_width'' \<mapsto> max 30 (terminal_width self' - 12),
           ''terminal_width'' \<mapsto> terminal_width self'], self')"
  by (simp add: get_dynamic_widths_def Let_def)

lemma size_stored:
  "shutil_get_terminal_size os = Inr (c, l) \<Longrightarrow>
   update_terminal_size os self = Inr (self\<lparr>terminal_width := c, terminal_height := l\<rparr>)"
  by (simp add: update_terminal_size_def)

lemma shutil_unmeasurable:
  assumes "environ_or_zero os ''COLUMNS'' \<le> 0"
    and "os_get_terminal_size os = Inl e" "e = AttributeError \<or> e = ValueError \<or> e = OSError"
  shows "shutil_get_terminal_size os =
    Inr (80, if environ_or_zero os ''LINES'' \<le> 0 then 24 else environ_or_zero os ''LINES'')"
  using assms by (auto simp: shutil_get_terminal_size_def Let_def)

lemma shutil_zero_columns:
  assumes "environ_or_zero os ''COLUMNS'' \<le> 0"
    and "os_get_terminal_size os = Inr (0, l)"
  shows "shutil_get_terminal_size os =
    Inr (80, if environ_or_zero os ''LINES'' \<le> 0 then (if l \<noteq> 0 then l else 24)
             else environ_or_zero os ''LINES'')"
  using assms by (auto simp: shutil_get_terminal_size_def Let_def)

text \<open>
  Claim C9. The width is unmeasurable or zero when \<open>COLUMNS\<close> gives no positive number
  (it is unset, not an integer, or not positive) and the terminal query fails with
  \<open>AttributeError\<close>, \<open>ValueError\<close> or \<open>OSError\<close> or reports zero columns. The stored width
  is then 80 and the layout is that of 80 columns: bar width 48 and graph width 68. The
  stored height is 24 when \<open>LINES\<close> gives no positive number either and the query failed
  or reported zero lines.
\<close>

theorem layout_fallback:
  assumes "environ_or_zero os ''COLUMNS'' \<le> 0"
    and "(os_get_terminal_size os = Inl e
            \<and> (e = AttributeError \<or> e = ValueError \<or> e = OSError))
         \<or> os_get_terminal_size os = Inr (0, l)"
  shows "\<exists>h. update_terminal_size os self = Inr (self\<lparr>terminal_width := 80, terminal_height := h\<rparr>)
     \<and> get_dynamic_widths os self =
          Inr ([''bar_width'' \<mapsto> 48, ''graph_width'' \<mapsto> 68, ''terminal_width'' \<mapsto> 80],
               self\<lparr>terminal_width := 80, terminal_height := h\<rparr>)
     \<and> default_width os self ''bar_width'' None
          = Inr (48, self\<lparr>terminal_width := 80, terminal_height := h\<rparr>)
     \<and> default_width os self ''graph_width'' None
          = Inr (68, self\<lparr>terminal_width := 80, terminal_height := h\<rparr>)
     \<and> (environ_or_zero os ''LINES'' \<le> 0
          \<and> (os_get_terminal_size os = Inr (0, l) \<longrightarrow> l = 0) \<longrightarrow> h = 24)"
proof -
  define h where "h =
    (if environ_or_zero os ''LINES'' \<le> 0
     then (case os_get_terminal_size os of Inl _ \<Rightarrow> 24 | Inr (_, n) \<Rightarrow> if n \<noteq> 0 then n else 24)
     else environ_or_zero os ''LINES'')"
  have "shutil_get_terminal_size os = Inr (80, h)"
    using assms(2)
  proof
    assume "os_get_terminal_size os = Inl e
            \<and> (e = AttributeError \<or> e = ValueError \<or> e = OSError)"
    then show ?thesis
      using shutil_unmeasurable [OF assms(1), of e] by (simp add: h_def)
  next
    assume "os_get_terminal_size os = Inr (0, l)"
    then show ?thesis
      using shutil_zero_columns [OF assms(1), of l] by (simp add: h_def)
  qed
  then have u: "update_terminal_size os self
      = Inr (self\<lparr>terminal_width := 80, terminal_height := h\<rparr>)"
    by (rule size_stored)
  have w: "get_dynamic_widths os self =
          Inr ([''bar_width'' \<mapsto> 48, ''graph_width'' \<mapsto> 68, ''terminal_width'' \<mapsto> 80],
               self\<lparr>terminal_width := 80, terminal_height := h\<rparr>)"
    by (simp add: widths_of_size [OF u])
  have b: "default_width os self ''bar_width'' None
          = Inr (48, self\<lparr>terminal_width := 80, terminal_height := h\<rparr>)"
    by (simp add: default_width_def w getitem_def)
  have g: "default_width os self ''graph_width'' None
          = Inr (68, self\<lparr>terminal_width := 80, terminal_height := h\<rparr>)"
    by (simp add: default_width_def w getitem_def)
  have l: "environ_or_zero os ''LINES'' \<le> 0
          \<and> (os_get_terminal_size os = Inr (0, l) \<longrightarrow> l = 0) \<longrightarrow> h = 24"
    using assms(2) by (auto simp: h_def)
  from u w b g l show ?thesis by blast
qed

theorem layout_fallback_witness:
  "get_dynamic_widths \<lparr>environ_int = Map.empty, os_get_terminal_size = Inl OSError\<rparr>
       default_monitor
     = Inr ([''bar_width'' \<mapsto> 48, ''graph_width'' \<mapsto> 68, ''terminal_width'' \<mapsto> 80],
            default_monitor\<lparr>terminal_width := 80, terminal_height := 24\<rparr>)
   \<and> get_dynamic_widths \<lparr>environ_int = [''COLUMNS'' \<mapsto> Some 0],
         os_get_terminal_size = Inr (0, 0)\<rparr> default_monitor
     = Inr ([''bar_width'' \<mapsto> 48, ''graph_width'' \<mapsto> 68, ''terminal_width'' \<mapsto> 80],
            default_monitor\<lparr>terminal_width := 80, terminal_height := 24\<rparr>)"
proof -
  from layout_fallback [where os = "\<lparr>environ_int = Map.empty, os_get_terminal_size = Inl OSError\<rparr>"
      and e = OSError and self = default_monitor and l = 0]
  have a: "get_dynamic_widths \<lparr>environ_int = Map.empty, os_get_terminal_size = Inl OSError\<rparr>
       default_monitor
     = Inr ([''bar_width'' \<mapsto> 48, ''graph_width'' \<mapsto> 68, ''terminal_width'' \<mapsto> 80],
            default_monitor\<lparr>terminal_width := 80, terminal_height := 24\<rparr>)"
    by (auto simp: environ_or_zero_def)
  from layout_fallback [where os = "\<lparr>environ_int = [''COLUMNS'' \<mapsto> Some 0],
         os_get_terminal_size = Inr (0, 0)\<rparr>"
      and e = OSError and self = default_monitor and l = 0]
  have b: "get_dynamic_widths \<lparr>environ_int = [''COLUMNS'' \<mapsto> Some 0],
         os_get_terminal_size = Inr (0, 0)\<rparr> default_monitor
     = Inr ([''bar_width'' \<mapsto> 48, ''graph_width'' \<mapsto> 68, ''terminal_width'' \<mapsto> 80],
            default_monitor\<lparr>terminal_width := 80, terminal_height := 24\<rparr>)"
    by (auto simp: environ_or_zero_def)
  from a b show ?thesis by (rule conjI)
qed

section \<open>Properties of the history\<close>

lemma idle_stats_derived: "get_lvm_cache_stats 0 [0, 0, 0, 0, 0, 0, 0] = Inr (Some idle_stats)"
  by (subst derivation_value) (simp_all add: idle_stats_def read_weight_of_def fl_half)

lemma maxlen_append [simp]: "maxlen (deque_append d x) = maxlen d"
  by (simp add: deque_append_def Let_def)

lemma items_append:
  "items (deque_append d x) =
     (if length (items d) < maxlen d then items d @ [x] else tl (items d @ [x]))"
  by (auto simp: deque_append_def Let_def)

lemma tl_as_drop: "tl xs = drop (Suc 0) xs"
  by (cases xs) simp_all

lemma length_append_bounded:
  "length (items d) \<le> maxlen d \<Longrightarrow> length (items (deque_append d x)) \<le> maxlen d"
  by (auto simp: items_append)

lemma maxlen_foldl [simp]: "maxlen (foldl deque_append d vs) = maxlen d"
  by (induction vs arbitrary: d) simp_all

lemma items_foldl:
  "length (items d) \<le> maxlen d \<Longrightarrow>
   items (foldl deque_append d vs) = drop (length (items d) + length vs - maxlen d) (items d @ vs)"
proof (induction vs arbitrary: d)
  case Nil
  then show ?case by simp
next
  case (Cons v vs)
  let ?d = "deque_append d v"
  have bnd: "length (items ?d) \<le> maxlen ?d"
    using Cons.prems by (simp add: length_append_bounded)
  have "items (foldl deque_append d (v # vs))
      = drop (length (items ?d) + length vs - maxlen d) (items ?d @ vs)"
    using Cons.IH [OF bnd] by simp
  also have "\<dots> = drop (length (items d) + length (v # vs) - maxlen d) (items d @ v # vs)"
  proof (cases "length (items d) < maxlen d")
    case True
    then show ?thesis by (simp add: items_append)
  next
    case False
    with Cons.prems have full: "length (items d) = maxlen d" by simp
    then have e1: "items ?d = drop (Suc 0) (items d @ [v])"
      by (simp add: items_append tl_as_drop del: tl_append2)
    have e2: "drop (Suc 0) (items d @ [v]) @ vs = drop (Suc 0) (items d @ v # vs)"
      by (cases "items d") simp_all
    have len: "length (items ?d) = maxlen d"
      unfolding e1 using full by simp
    have "drop (length (items ?d) + length vs - maxlen d) (items ?d @ vs)
        = drop (length vs) (items ?d @ vs)"
      by (simp only: len add_diff_cancel_left')
    also have "\<dots> = drop (length vs) (drop (Suc 0) (items d @ v # vs))"
      by (simp only: e1 e2)
    also have "\<dots> = drop (Suc (length vs)) (items d @ v # vs)"
      by (simp only: drop_drop add_Suc_right add_0_right)
    also have "\<dots> = drop (length (items d) + length (v # vs) - maxlen d) (items d @ v # vs)"
      by (simp only: full add_diff_cancel_left' list.size(4)) simp
    finally show ?thesis .
  qed
  finally show ?case .
qed

lemma items_foldl_last:
  assumes "length (items d) \<le> maxlen d" "length vs = maxlen d + k"
  shows "items (foldl deque_append d vs) = drop k vs"
proof -
  have "items (foldl deque_append d vs) = drop (length (items d) + k) (items d @ vs)"
    using items_foldl [OF assms(1), of vs] assms(2) by simp
  then show ?thesis by simp
qed

lemma length_append_cap:
  "maxlen d = cap \<Longrightarrow> length (items d) \<le> cap \<Longrightarrow> length (items (deque_append d x)) \<le> cap"
  by (auto simp: items_append)

lemma store_history_bounded:
  "series_bounded self cap \<Longrightarrow> series_bounded (store_history self s) cap"
  by (simp add: series_bounded_def store_history_def length_append_cap)

lemma foldl_store_history:
  "cache_usage_history (foldl store_history self ss)
     = foldl deque_append (cache_usage_history self) (map cache_usage_pct ss)"
  "hit_ratio_history (foldl store_history self ss)
     = foldl deque_append (hit_ratio_history self) (map hit_ratio_pct ss)"
  "dirty_ratio_history (foldl store_history self ss)
     = foldl deque_append (dirty_ratio_history self) (map dirty_ratio_pct ss)"
  "read_hit_ratio_history (foldl store_history self ss)
     = foldl deque_append (read_hit_ratio_history self) (map read_hit_ratio_pct ss)"
  "write_hit_ratio_history (foldl store_history self ss)
     = foldl deque_append (write_hit_ratio_history self) (map write_hit_ratio_pct ss)"
  by (induction ss arbitrary: self; simp add: store_history_def)+

lemma init_default: "init terminal_80x24 ''vg_games'' ''games'' 60 = Inr default_monitor"
  by (simp add: init_def deque_new_def update_terminal_size_def shutil_get_terminal_size_def
      environ_or_zero_def terminal_80x24_def default_monitor_def)

lemma init_bounded:
  assumes "init os vg lv n = Inr self"
  shows "series_bounded self (nat n)"
proof -
  from assms have n: "\<not> n < 0"
    by (auto simp: init_def deque_new_def and_then_def split: if_splits)
  let ?d = "\<lparr>maxlen = nat n, items = []\<rparr> :: pyfloat deque"
  let ?m = "\<lparr>vg_name = vg, lv_name = lv, max_history = n,
        cache_usage_history = ?d, hit_ratio_history = ?d, dirty_ratio_history = ?d,
        read_hit_ratio_history = ?d, write_hit_ratio_history = ?d,
        terminal_width = 80, terminal_height = 24\<rparr>"
  from assms n have u: "update_terminal_size os ?m = Inr self"
    by (simp add: init_def deque_new_def and_then_def)
  then obtain c l where "self = ?m\<lparr>terminal_width := c, terminal_height := l\<rparr>"
    by (auto simp: update_terminal_size_def and_then_def
        split: sum.splits if_splits prod.splits)
  then show ?thesis by (simp add: series_bounded_def)
qed

text \<open>
  Claim C5. A monitor built by \<open>__init__\<close> has five series of capacity \<open>max_history\<close>.
  When the five series have capacity \<open>cap\<close> and hold at most \<open>cap\<close> values, and
  \<open>cap + k\<close> samples with \<open>k \<ge> 1\<close> are stored, each series holds exactly the
  last \<open>cap\<close> values stored in it, oldest first; the bound holds again after every single
  store, so the oldest value leaves in the append that overfills the series.
\<close>

theorem history_keeps_last:
  assumes "series_bounded self cap" "length ss = cap + k" "1 \<le> k"
  shows "items (cache_usage_history (foldl store_history self ss)) = drop k (map cache_usage_pct ss)
    \<and> items (hit_ratio_history (foldl store_history self ss)) = drop k (map hit_ratio_pct ss)
    \<and> items (dirty_ratio_history (foldl store_history self ss)) = drop k (map dirty_ratio_pct ss)
    \<and> items (read_hit_ratio_history (foldl store_history self ss)) = drop k (map read_hit_ratio_pct ss)
    \<and> items (write_hit_ratio_history (foldl store_history self ss)) = drop k (map write_hit_ratio_pct ss)
    \<and> length (drop k ss) = cap
    \<and> series_bounded (store_history self s) cap
    \<and> series_bounded (foldl store_history self ss) cap"
proof -
  have b: "series_bounded (foldl store_history self xs) cap" for xs
    using assms(1) by (induction xs arbitrary: self) (simp_all add: store_history_bounded)
  from assms(1) have
    "length (items (cache_usage_history self)) \<le> maxlen (cache_usage_history self)"
    "length (items (hit_ratio_history self)) \<le> maxlen (hit_ratio_history self)"
    "length (items (dirty_ratio_history self)) \<le> maxlen (dirty_ratio_history self)"
    "length (items (read_hit_ratio_history self)) \<le> maxlen (read_hit_ratio_history self)"
    "length (items (write_hit_ratio_history self)) \<le> maxlen (write_hit_ratio_history self)"
    and "maxlen (cache_usage_history self) = cap" "maxlen (hit_ratio_history self) = cap"
    "maxlen (dirty_ratio_history self) = cap" "maxlen (read_hit_ratio_history self) = cap"
    "maxlen (write_hit_ratio_history self) = cap"
    by (simp_all add: series_bounded_def)
  then show ?thesis
    using assms(2) b [of ss] store_history_bounded [OF assms(1), of s]
    by (simp add: foldl_store_history items_foldl_last)
qed

theorem history_keeps_last_witness:
  "items (cache_usage_history (foldl store_history default_monitor
      (idle_stats\<lparr>cache_usage_pct := Fin 7\<rparr> # replicate 60 idle_stats))) = replicate 60 (Fin 0)
   \<and> items (hit_ratio_history (foldl store_history default_monitor
      (idle_stats\<lparr>cache_usage_pct := Fin 7\<rparr> # replicate 60 idle_stats))) = replicate 60 (Fin 0)
   \<and> series_bounded (foldl store_history default_monitor
      (idle_stats\<lparr>cache_usage_pct := Fin 7\<rparr> # replicate 60 idle_stats)) 60"
proof -
  have b: "series_bounded default_monitor 60"
    by (simp add: series_bounded_def default_monitor_def)
  have l: "length (idle_stats\<lparr>cache_usage_pct := Fin 7\<rparr> # replicate 60 idle_stats) = 60 + 1"
    by simp
  have k: "(1::nat) \<le> 1" by simp
  from history_keeps_last [OF b l k] show ?thesis
    by (simp add: idle_stats_def)
qed

section \<open>Properties of the monitoring loop\<close>

lemma display_unavailable: "display_stats full_frame self None = Inr (error_frame, self)"
  by (simp add: display_stats_def getitem_def colors_def error_frame_def)

lemma loop_body_unavailable: "loop_body full_frame self None = Inr (error_frame, self)"
  by (simp add: loop_body_def display_unavailable)

lemma run_unavailable:
  "run full_frame self (Inr None # polls) =
     (case run full_frame self polls of (frames, self', r) \<Rightarrow> (error_frame # frames, self', r))"
  by (simp add: loop_body_unavailable)

lemma run_all_unavailable:
  "run full_frame self (replicate n (Inr None)) = (replicate n error_frame, self, Still_running)"
  by (induction n) (simp_all add: run_unavailable del: run.simps(2))

text \<open>
  Claim C6. A pass of the loop whose poll gave \<open>None\<close> returns the monitor it was given,
  so none of the five series changes, and prints the error frame: the coloured error line
  and the line that asks to check the volume and the sudo privileges. The loop then goes
  on with the next poll from that same monitor; any number of such passes leaves it
  running.
\<close>

theorem unavailable_sample_skipped:
  "loop_body full_frame self None = Inr (error_frame, self)
   \<and> error_frame ! 1
       = ascii ''Make sure the volume group and logical volume exist and you have sudo privileges.''
   \<and> visible False (error_frame ! 0) = ascii ''Error: Could not retrieve LVM cache statistics''
   \<and> run full_frame self (Inr None # polls) =
        (case run full_frame self polls of (frames, self', r) \<Rightarrow> (error_frame # frames, self', r))
   \<and> run full_frame self (replicate n (Inr None)) = (replicate n error_frame, self, Still_running)"
proof -
  have "visible False (error_frame ! 0) = ascii ''Error: Could not retrieve LVM cache statistics''"
    by (simp add: error_frame_def ascii_def ESC_def)
  moreover have "error_frame ! 1
       = ascii ''Make sure the volume group and logical volume exist and you have sudo privileges.''"
    by (simp add: error_frame_def)
  ultimately show ?thesis
    using loop_body_unavailable run_unavailable run_all_unavailable by blast
qed

section \<open>Properties of the line chart\<close>

lemma list_get_in: "0 \<le> i \<Longrightarrow> i < int (length xs) \<Longrightarrow> list_get xs i = Inr (xs ! nat i)"
  by (simp add: list_get_def norm_index_def)

lemma list_set_in: "0 \<le> i \<Longrightarrow> i < int (length xs) \<Longrightarrow> list_set xs i v = Inr (xs[nat i := v])"
  by (simp add: list_set_def norm_index_def)

lemma plot_points_step:
  assumes "plot_row h mn rg v = Inr y" "0 \<le> y" "y < h"
    and "length lines = nat h" "\<forall>l \<in> set lines. length l = nat w"
  shows "plot_points w h mn rg i (v # rest) lines =
     (if w \<le> int i then Inr lines
      else plot_points w h mn rg (Suc i) rest
             (lines[nat y := (lines ! nat y)[i := BLACK_CIRCLE]]))"
proof (cases "w \<le> int i")
  case True
  then show ?thesis by simp
next
  case False
  from assms have y: "0 \<le> y" "y < int (length lines)" by simp_all
  then have "lines ! nat y \<in> set lines" by simp
  with assms(5) have len: "length (lines ! nat y) = nat w" by blast
  with False have x: "0 \<le> int i" "int i < int (length (lines ! nat y))" by simp_all
  show ?thesis
    using False assms(1) list_get_in [OF y] list_set_in [OF x, of BLACK_CIRCLE]
      list_set_in [OF y, of "(lines ! nat y)[i := BLACK_CIRCLE]"]
    by (simp add: Let_def)
qed

lemma plot_points_spec:
  assumes "\<forall>v \<in> set vs. \<exists>y. plot_row h mn rg v = Inr y \<and> 0 \<le> y \<and> y < h"
    and "length lines = nat h" "\<forall>l \<in> set lines. length l = nat w"
  shows "\<exists>out. plot_points w h mn rg i vs lines = Inr out
     \<and> length out = nat h \<and> (\<forall>l \<in> set out. length l = nat w)
     \<and> (\<forall>y < nat h. \<forall>x < nat w. out ! y ! x =
          (if i \<le> x \<and> x < i + length vs \<and> plot_row h mn rg (vs ! (x - i)) = Inr (int y)
           then BLACK_CIRCLE else lines ! y ! x))"
  using assms
proof (induction vs arbitrary: i lines)
  case Nil
  then show ?case by simp
next
  case (Cons v rest)
  obtain y0 where y0: "plot_row h mn rg v = Inr y0" "0 \<le> y0" "y0 < h"
    using Cons.prems(1) by auto
  have rest: "\<forall>v \<in> set rest. \<exists>y. plot_row h mn rg v = Inr y \<and> 0 \<le> y \<and> y < h"
    using Cons.prems(1) by simp
  note step = plot_points_step [OF y0 Cons.prems(2,3), of i rest]
  show ?case
  proof (cases "w \<le> int i")
    case True
    then have "nat w \<le> i" by simp
    with True step Cons.prems(2,3) show ?thesis by simp
  next
    case False
    let ?row = "(lines ! nat y0)[i := BLACK_CIRCLE]"
    let ?lines = "lines[nat y0 := ?row]"
    from y0 Cons.prems(2) have yl: "nat y0 < length lines" by simp
    then have "lines ! nat y0 \<in> set lines" by simp
    with Cons.prems(3) have rowlen: "length (lines ! nat y0) = nat w" by blast
    from False have iw: "i < nat w" by simp
    have l1: "length ?lines = nat h" using Cons.prems(2) by simp
    have l2: "\<forall>l \<in> set ?lines. length l = nat w"
    proof
      fix l assume "l \<in> set ?lines"
      then have "l = ?row \<or> l \<in> set lines"
        using set_update_subset_insert [of lines "nat y0" ?row] by auto
      then show "length l = nat w" using rowlen Cons.prems(3) by auto
    qed
    from Cons.IH [OF rest l1 l2, of "Suc i"]
    obtain out where out: "plot_points w h mn rg (Suc i) rest ?lines = Inr out"
      "length out = nat h" "\<forall>l \<in> set out. length l = nat w"
      "\<forall>y < nat h. \<forall>x < nat w. out ! y ! x =
          (if Suc i \<le> x \<and> x < Suc i + length rest
               \<and> plot_row h mn rg (rest ! (x - Suc i)) = Inr (int y)
           then BLACK_CIRCLE else ?lines ! y ! x)"
      by blast
    have pt: "out ! y ! x =
          (if i \<le> x \<and> x < i + length (v # rest)
               \<and> plot_row h mn rg ((v # rest) ! (x - i)) = Inr (int y)
           then BLACK_CIRCLE else lines ! y ! x)" if "y < nat h" "x < nat w" for y x
    proof -
      from that Cons.prems(2) have yl': "y < length lines" by simp
      have upd: "?lines ! y ! x = (if y = nat y0 \<and> x = i then BLACK_CIRCLE else lines ! y ! x)"
        using yl' yl rowlen iw by (auto simp: nth_list_update)
      consider "x < i" | "x = i" | "i < x" by linarith
      then show ?thesis
      proof cases
        case 1
        then show ?thesis using out(4) that upd by simp
      next
        case 2
        have "int y = y0 \<longleftrightarrow> y = nat y0" using y0(2) by auto
        then show ?thesis using 2 out(4) that upd y0 by simp
      next
        case 3
        then have "(v # rest) ! (x - i) = rest ! (x - Suc i)"
          by (simp add: nth_Cons')
        moreover from 3 have "Suc i \<le> x" by simp
        ultimately show ?thesis using 3 out(4) that upd by simp
      qed
    qed
    from step False out(1) have "plot_points w h mn rg i (v # rest) lines = Inr out" by simp
    with out(2,3) pt show ?thesis by blast
  qed
qed

lemma fold_min_fin:
  "fold (\<lambda>item best. if flt item best then item else best) (map Fin xs) (Fin x)
     = Fin (fold min xs x)"
  by (induction xs arbitrary: x) (simp_all add: min_def not_less [symmetric] del: not_less)

lemma fold_max_fin:
  "fold (\<lambda>item best. if fgt item best then item else best) (map Fin xs) (Fin x)
     = Fin (fold max xs x)"
  by (induction xs arbitrary: x) (simp_all add: max_def fgt_def not_less [symmetric] del: not_less)

lemma py_min_value:
  assumes "xs \<noteq> []"
  shows "py_min (map Fin xs) = Inr (Fin (Min (set xs)))"
proof (cases xs)
  case Nil
  with assms show ?thesis by simp
next
  case (Cons a list)
  then show ?thesis
    using Min.set_eq_fold [of a list] by (simp add: py_min_def fold_min_fin)
qed

lemma py_max_value:
  assumes "xs \<noteq> []"
  shows "py_max (map Fin xs) = Inr (Fin (Max (set xs)))"
proof (cases xs)
  case Nil
  with assms show ?thesis by simp
next
  case (Cons a list)
  then show ?thesis
    using Max.set_eq_fold [of a list] by (simp add: py_max_def fold_max_fin)
qed

lemma map_const_replicate: "map (\<lambda>_. c) xs = replicate (length xs) c"
  by (induction xs) simp_all

lemma set_slice_last: "set (slice_last data w) \<subseteq> set data"
  by (simp add: slice_last_def set_drop_subset)

lemma slice_last_map: "slice_last (map f xs) w = map f (slice_last xs w)"
  by (simp add: slice_last_def drop_map)

lemma finite_double_grid:
  assumes "finite_double x"
  shows "\<exists>n. x * 2 ^ 1074 = of_int n"
proof -
  obtain n where n: "rnd (x * 2 ^ 1074) = of_int n" using rnd_integral by blast
  have nz: "(2::rat) ^ 1074 \<noteq> 0" by simp
  from assms have "fl x = x" by (simp add: finite_double_def)
  then have "rnd (x * 2 ^ 1074) / 2 ^ 1074 = x" by (simp only: fl_def)
  then have "rnd (x * 2 ^ 1074) = x * 2 ^ 1074" by (simp only: nonzero_divide_eq_eq [OF nz])
  then have "x * 2 ^ 1074 = of_int n" by (simp only: n)
  then show ?thesis ..
qed

lemma grid_gap:
  assumes "finite_double a" "finite_double b" "a < b"
  shows "1 / 2 ^ 1074 \<le> b - a"
proof -
  define p :: rat where "p = 2 ^ 1074"
  have p: "0 < p" by (simp add: p_def)
  from finite_double_grid [OF assms(1)] obtain m where m: "a * p = of_int m"
    unfolding p_def ..
  from finite_double_grid [OF assms(2)] obtain n where n: "b * p = of_int n"
    unfolding p_def ..
  have "a * p < b * p" using assms(3) p by simp
  then have "(of_int m :: rat) < of_int n" by (simp only: m n)
  then have "m + 1 \<le> n" by simp
  then have "(of_int (m + 1) :: rat) \<le> of_int n" by (simp only: of_int_le_iff)
  then have "a * p + 1 \<le> b * p" by (simp add: m n)
  then have "1 \<le> (b - a) * p" by (simp add: algebra_simps)
  then have "1 / p \<le> b - a" using p by (simp add: divide_le_eq)
  then show ?thesis unfolding p_def .
qed

lemma clamp_id:
  fixes n h :: int
  assumes "0 \<le> n" "n \<le> h - 1"
  shows "max 0 (min (h - 1) (h - 1 - n)) = h - 1 - n"
  using assms by simp

lemma fl_smallest: "fl (1 / 2 ^ 1074) = 1 / 2 ^ 1074"
  by (rule fl_exact [of 1 _ 0]) simp_all

lemma fl_positive:
  assumes "1 / 2 ^ 1074 \<le> x"
  shows "0 < fl x"
proof -
  have "fl (1 / 2 ^ 1074) \<le> fl x" using assms by (intro fl_mono) simp_all
  then have "1 / 2 ^ 1074 \<le> fl x" by (simp only: fl_smallest)
  moreover have "(0::rat) < 1 / 2 ^ 1074" by simp
  ultimately show ?thesis by (rule less_le_trans [rotated])
qed

lemma double_difference:
  assumes "finite_double a" "finite_double b" "a \<le> b"
  shows "0 \<le> b - a" "b - a \<le> 2 ^ 1023"
proof -
  show "0 \<le> b - a" using assms(3) by simp
  from assms(1,2) have "\<bar>a\<bar> \<le> 2 ^ 1022" "\<bar>b\<bar> \<le> 2 ^ 1022"
    by (simp_all add: finite_double_def)
  then have "b - a \<le> 2 ^ 1022 + 2 ^ 1022" by linarith
  also have "(2::rat) ^ 1022 + 2 ^ 1022 = 2 ^ 1023" by simp
  finally show "b - a \<le> 2 ^ 1023" .
qed

lemma scaled_unit_value:
  fixes q :: rat
  assumes "0 \<le> q" "q \<le> 1" "0 \<le> w" "w \<le> 2 ^ 53"
  shows "int_of_float (fmul (Fin q) (Fin (of_int w))) = Inr \<lfloor>fl (q * of_int w)\<rfloor>"
  using scaled_unit(1) [OF assms] by (simp add: float_of_int_small [OF assms(3,4)])

text \<open>
  The row the code computes for a value between the minimum and the maximum of the
  series: no step raises, and the clamp has nothing to do.
\<close>

lemma plot_row_binary64:
  assumes "0 < h" "h \<le> 2 ^ 53"
    and "finite_double mn" "finite_double mx" "finite_double v" "mn \<le> v" "v \<le> mx"
  defines "rg \<equiv> (if mx = mn then 1 else fl (mx - mn))"
  defines "n \<equiv> \<lfloor>fl (fl (fl (v - mn) / rg) * of_int (h - 1))\<rfloor>"
  shows "plot_row h (Fin mn) (if fne (Fin mx) (Fin mn) then fsub (Fin mx) (Fin mn) else Fin 1)
           (Fin v) = Inr (max 0 (min (h - 1) (h - 1 - n)))"
    and "0 \<le> n" and "n \<le> h - 1"
proof -
  have d: "0 \<le> v - mn" "v - mn \<le> 2 ^ 1023"
    using double_difference [OF assms(3,5,6)] .
  have fd0: "0 \<le> fl (v - mn)" using d(1) by (rule fl_nonneg)
  have sub: "fsub (Fin v) (Fin mn) = Fin (fl (v - mn))"
    using fround_range [OF d] by simp
  have range: "(if fne (Fin mx) (Fin mn) then fsub (Fin mx) (Fin mn) else Fin 1) = Fin rg"
    and pos: "0 < rg" and le: "fl (v - mn) \<le> rg"
  proof -
    show "(if fne (Fin mx) (Fin mn) then fsub (Fin mx) (Fin mn) else Fin 1) = Fin rg"
    proof (cases "mx = mn")
      case True
      then show ?thesis by (simp add: rg_def)
    next
      case False
      with assms(6,7) have "mn \<le> mx" by simp
      from fround_range [OF double_difference [OF assms(3,4) this]] False
      show ?thesis by (simp add: rg_def)
    qed
    show "0 < rg"
    proof (cases "mx = mn")
      case True
      then show ?thesis by (simp add: rg_def)
    next
      case False
      with assms(6,7) have "mn < mx" by simp
      with assms(3,4) have "1 / 2 ^ 1074 \<le> mx - mn" by (rule grid_gap)
      then have "0 < fl (mx - mn)" by (rule fl_positive)
      with False show ?thesis by (simp add: rg_def)
    qed
    show "fl (v - mn) \<le> rg"
    proof (cases "mx = mn")
      case True
      with assms(6,7) have "v - mn = 0" by simp
      then show ?thesis using True by (simp add: rg_def)
    next
      case False
      have "v - mn \<le> mx - mn" using assms(7) by simp
      with d(1) have "fl (v - mn) \<le> fl (mx - mn)" by (rule fl_mono)
      with False show ?thesis by (simp add: rg_def)
    qed
  qed
  have q0: "0 \<le> fl (v - mn) / rg" using fd0 pos by simp
  have q1: "fl (v - mn) / rg \<le> 1" using le pos by (simp add: divide_le_eq)
  have quot: "fdiv (Fin (fl (v - mn))) (Fin rg) = Inr (Fin (fl (fl (v - mn) / rg)))"
    using pos by (simp add: fdiv_fin fround_unit [OF q0 q1])
  have f0: "0 \<le> fl (fl (v - mn) / rg)" using q0 by (rule fl_nonneg)
  have f1: "fl (fl (v - mn) / rg) \<le> 1" using q0 q1 by (rule fl_le_one)
  have h0: "0 \<le> h - 1" using assms(1) by simp
  have h1: "h - 1 \<le> 2 ^ 53" using assms(2) by simp
  note s = scaled_unit [OF f0 f1 h0 h1]
  show "0 \<le> n" unfolding n_def by (rule s(2))
  show "n \<le> h - 1" unfolding n_def by (rule s(3))
  have c: "float_of_int (h - 1) = Inr (Fin (of_int (h - 1)))"
    using h0 h1 by (rule float_of_int_small)
  have m: "int_of_float (fmul (Fin (fl (fl (v - mn) / rg))) (Fin (of_int (h - 1)))) = Inr n"
    unfolding n_def by (rule scaled_unit_value [OF f0 f1 h0 h1])
  show "plot_row h (Fin mn) (if fne (Fin mx) (Fin mn) then fsub (Fin mx) (Fin mn) else Fin 1)
           (Fin v) = Inr (max 0 (min (h - 1) (h - 1 - n)))"
    unfolding plot_row_def range sub quot and_then_Inr c m by (simp add: Let_def)
qed

lemma plot_row_chart_row:
  assumes "v \<in> set xs" "0 < h" "h \<le> 2 ^ 53" "\<forall>x \<in> set xs. finite_double x"
  shows "plot_row h (Fin (Min (set xs)))
           (if fne (Fin (Max (set xs))) (Fin (Min (set xs)))
            then fsub (Fin (Max (set xs))) (Fin (Min (set xs))) else Fin 1) (Fin v)
         = Inr (chart_row_binary64 xs h v)"
    and "0 \<le> chart_row_binary64 xs h v" and "chart_row_binary64 xs h v < h"
    and "chart_row_binary64 xs h v = h - 1 -
      \<lfloor>fl (fl (fl (v - Min (set xs))
          / (if Max (set xs) = Min (set xs) then 1 else fl (Max (set xs) - Min (set xs))))
        * of_int (h - 1))\<rfloor>"
proof -
  let ?mn = "Min (set xs)" and ?mx = "Max (set xs)"
  from assms(1) have fin: "finite (set xs)" and ne: "set xs \<noteq> {}" by auto
  have lo: "?mn \<le> v" and hi: "v \<le> ?mx" using assms(1) by simp_all
  have "?mn \<in> set xs" "?mx \<in> set xs" using fin ne by (simp_all add: Min_in Max_in)
  with assms(4) have dm: "finite_double ?mn" "finite_double ?mx" by blast+
  from assms(1,4) have dv: "finite_double v" by blast
  note r = plot_row_binary64 [OF assms(2,3) dm dv lo hi]
  have cr: "chart_row_binary64 xs h v = max 0 (min (h - 1) (h - 1 -
      \<lfloor>fl (fl (fl (v - ?mn) / (if ?mx = ?mn then 1 else fl (?mx - ?mn))) * of_int (h - 1))\<rfloor>))"
    by (simp only: chart_row_binary64_def Let_def)
  show "plot_row h (Fin ?mn)
           (if fne (Fin ?mx) (Fin ?mn) then fsub (Fin ?mx) (Fin ?mn) else Fin 1) (Fin v)
         = Inr (chart_row_binary64 xs h v)"
    unfolding cr by (rule r(1))
  show "0 \<le> chart_row_binary64 xs h v" unfolding cr by simp
  show "chart_row_binary64 xs h v < h" unfolding cr using assms(2) by simp
  show "chart_row_binary64 xs h v = h - 1 -
      \<lfloor>fl (fl (fl (v - ?mn) / (if ?mx = ?mn then 1 else fl (?mx - ?mn))) * of_int (h - 1))\<rfloor>"
    unfolding cr by (rule clamp_id [OF r(2,3)])
qed

lemma line_graph_short:
  "length data < 2 \<Longrightarrow> create_line_graph os self data (Some w) h = Inr (replicate (nat h) [], self)"
  by (simp add: create_line_graph_def default_width_def seq_mul_single)

lemma line_graph_unfold:
  assumes "2 \<le> length xs"
  shows "create_line_graph os self (map Fin xs) (Some w) h =
     and_then (plot_points w h (Fin (Min (set xs)))
                 (if fne (Fin (Max (set xs))) (Fin (Min (set xs)))
                  then fsub (Fin (Max (set xs))) (Fin (Min (set xs))) else Fin 1)
                 0 (map Fin (slice_last xs w)) (replicate (nat h) (replicate (nat w) SPACE)))
       (\<lambda>lines. Inr (lines, self))"
proof -
  from assms have ne: "xs \<noteq> []" by auto
  from assms have two: "\<not> length xs < 2" by simp
  show ?thesis
    unfolding create_line_graph_def default_width_def
    by (simp add: py_min_value [OF ne] py_max_value [OF ne] ne two slice_last_map
        seq_mul_single map_const_replicate Let_def del: plot_points.simps fsub.simps fne_fin)
qed

lemma line_graph_plot:
  assumes "2 \<le> length xs" "0 < h" "h \<le> 2 ^ 53" "\<forall>x \<in> set xs. finite_double x"
  shows "\<exists>lines. create_line_graph os self (map Fin xs) (Some w) h = Inr (lines, self)
        \<and> length lines = nat h
        \<and> (\<forall>y < nat h. length (lines ! y) = nat w
             \<and> (\<forall>x < nat w. lines ! y ! x =
                  (if x < length (slice_last xs w)
                      \<and> chart_row_binary64 xs h (slice_last xs w ! x) = int y
                   then BLACK_CIRCLE else SPACE)))"
proof -
  define mn where "mn = Fin (Min (set xs))"
  define rg where "rg = (if fne (Fin (Max (set xs))) (Fin (Min (set xs)))
                  then fsub (Fin (Max (set xs))) (Fin (Min (set xs))) else Fin 1)"
  define recent where "recent = slice_last xs w"
  define blank where "blank = replicate (nat h) (replicate (nat w) SPACE)"
  have row: "plot_row h mn rg (Fin v) = Inr (chart_row_binary64 xs h v)"
    "0 \<le> chart_row_binary64 xs h v" "chart_row_binary64 xs h v < h" if "v \<in> set recent" for v
  proof -
    from that have "v \<in> set (slice_last xs w)" by (simp only: recent_def)
    then have v: "v \<in> set xs" by (rule subsetD [OF set_slice_last])
    show "plot_row h mn rg (Fin v) = Inr (chart_row_binary64 xs h v)"
      unfolding mn_def rg_def by (rule plot_row_chart_row(1) [OF v assms(2,3,4)])
    show "0 \<le> chart_row_binary64 xs h v" by (rule plot_row_chart_row(2) [OF v assms(2,3,4)])
    show "chart_row_binary64 xs h v < h" by (rule plot_row_chart_row(3) [OF v assms(2,3,4)])
  qed
  have ok: "\<forall>v \<in> set (map Fin recent). \<exists>y. plot_row h mn rg v = Inr y \<and> 0 \<le> y \<and> y < h"
    using row by auto
  have b1: "length blank = nat h" by (simp add: blank_def)
  have b2: "\<forall>l \<in> set blank. length l = nat w" by (simp add: blank_def)
  from plot_points_spec [OF ok b1 b2, of 0]
  obtain out where out: "plot_points w h mn rg 0 (map Fin recent) blank = Inr out"
    "length out = nat h" "\<forall>l \<in> set out. length l = nat w"
    and pts: "\<forall>y < nat h. \<forall>x < nat w. out ! y ! x =
          (if 0 \<le> x \<and> x < 0 + length (map Fin recent)
               \<and> plot_row h mn rg (map Fin recent ! (x - 0)) = Inr (int y)
           then BLACK_CIRCLE else blank ! y ! x)"
    by blast
  have run: "create_line_graph os self (map Fin xs) (Some w) h = Inr (out, self)"
    unfolding line_graph_unfold [OF assms(1)]
    using out(1) unfolding mn_def rg_def recent_def blank_def
    by (simp only: and_then_def sum.case)
  have pt: "out ! y ! x =
                  (if x < length recent \<and> chart_row_binary64 xs h (recent ! x) = int y
                   then BLACK_CIRCLE else SPACE)" if y: "y < nat h" and x: "x < nat w" for y x
  proof -
    from pts y x have o: "out ! y ! x =
          (if 0 \<le> x \<and> x < 0 + length (map Fin recent)
               \<and> plot_row h mn rg (map Fin recent ! (x - 0)) = Inr (int y)
           then BLACK_CIRCLE else blank ! y ! x)"
      by blast
    have bl: "blank ! y ! x = SPACE" using y x by (simp add: blank_def)
    show ?thesis
    proof (cases "x < length recent")
      case True
      then have "recent ! x \<in> set recent" by simp
      then have "plot_row h mn rg (Fin (recent ! x)) = Inr (chart_row_binary64 xs h (recent ! x))"
        by (rule row(1))
      then have "plot_row h mn rg (Fin (recent ! x)) = Inr (int y)
          \<longleftrightarrow> chart_row_binary64 xs h (recent ! x) = int y"
        by (simp only: sum.inject)
      with True o bl show ?thesis by simp
    next
      case False
      with o bl show ?thesis by simp
    qed
  qed
  have len: "length (out ! y) = nat w" if "y < nat h" for y
  proof -
    from that out(2) have "out ! y \<in> set out" by simp
    with out(3) show ?thesis by blast
  qed
  have "length out = nat h
        \<and> (\<forall>y < nat h. length (out ! y) = nat w
             \<and> (\<forall>x < nat w. out ! y ! x =
                  (if x < length recent \<and> chart_row_binary64 xs h (recent ! x) = int y
                   then BLACK_CIRCLE else SPACE)))"
    using out(2) len pt by blast
  with run show ?thesis unfolding recent_def by blast
qed

lemma min_max_example:
  "Min (set [10, 20, 10, 20 :: rat]) = 10" "Max (set [10, 20, 10, 20 :: rat]) = 20"
  "Min (set [0, 15, 22 :: rat]) = 0" "Max (set [0, 15, 22 :: rat]) = 22"
  by simp_all

lemma chart_row_example:
  "chart_row_binary64 [10, 20, 10, 20] 2 10 = 1" "chart_row_binary64 [10, 20, 10, 20] 2 20 = 0"
  unfolding chart_row_binary64_def min_max_example
  by (simp_all add: Let_def fl_numeral)

lemma doubles_example:
  "\<forall>x \<in> set [10, 20, 10, 20 :: rat]. finite_double x"
  "\<forall>x \<in> set [0, 15, 22 :: rat]. finite_double x"
  by (simp_all add: finite_double_def fl_numeral)

lemma line_graph_example:
  "create_line_graph os self [Fin 10, Fin 20, Fin 10, Fin 20] (Some 4) 2
     = Inr ([[SPACE, BLACK_CIRCLE, SPACE, BLACK_CIRCLE],
             [BLACK_CIRCLE, SPACE, BLACK_CIRCLE, SPACE]], self)"
proof -
  define mn where "mn = Fin (Min (set [10, 20, 10, 20]))"
  define rg where "rg =
    (if fne (Fin (Max (set [10, 20, 10, 20]))) (Fin (Min (set [10, 20, 10, 20])))
     then fsub (Fin (Max (set [10, 20, 10, 20]))) (Fin (Min (set [10, 20, 10, 20])))
     else Fin 1)"
  have two: "2 \<le> length [10, 20, 10, 20 :: rat]" by simp
  have h: "(0::int) < 2" "(2::int) \<le> 2 ^ 53" by simp_all
  have blank: "replicate (nat 2) (replicate (nat 4) SPACE)
      = [[SPACE, SPACE, SPACE, SPACE], [SPACE, SPACE, SPACE, SPACE]]"
    by (simp add: eval_nat_numeral)
  have recent: "map Fin (slice_last [10, 20, 10, 20 :: rat] 4) = [Fin 10, Fin 20, Fin 10, Fin 20]"
    by (simp add: slice_last_def)
  have rows: "plot_row 2 mn rg (Fin 10) = Inr 1" "plot_row 2 mn rg (Fin 20) = Inr 0"
    unfolding mn_def rg_def
    using plot_row_chart_row(1) [OF _ h doubles_example(1), of 10]
      plot_row_chart_row(1) [OF _ h doubles_example(1), of 20]
    by (simp_all only: chart_row_example list.set insert_iff simp_thms)
  have plot: "plot_points 4 2 mn rg 0 [Fin 10, Fin 20, Fin 10, Fin 20]
      [[SPACE, SPACE, SPACE, SPACE], [SPACE, SPACE, SPACE, SPACE]]
    = Inr [[SPACE, BLACK_CIRCLE, SPACE, BLACK_CIRCLE], [BLACK_CIRCLE, SPACE, BLACK_CIRCLE, SPACE]]"
    by (simp add: rows list_get_def list_set_def norm_index_def)
  have "create_line_graph os self (map Fin [10, 20, 10, 20]) (Some 4) 2
     = Inr ([[SPACE, BLACK_CIRCLE, SPACE, BLACK_CIRCLE],
             [BLACK_CIRCLE, SPACE, BLACK_CIRCLE, SPACE]], self)"
    unfolding line_graph_unfold [OF two] blank recent
    unfolding rg_def [symmetric]
    unfolding mn_def [symmetric] plot
    by simp
  then show ?thesis by simp
qed

lemma fl_15_22: "fl (15 / 22) = 6141272219141585 / 2 ^ 53"
  by (subst fl_eval_lt1 [where e = 1]) (simp_all add: rne_def Let_def)

lemma fl_15_22_scaled: "fl (6141272219141585 / 2 ^ 53 * 22) = 8444249301319679 / 2 ^ 49"
  by (subst fl_eval_ge1 [where e = 3]) (simp_all add: rne_def Let_def)

lemma chart_row_rounding:
  "chart_row_binary64 [0, 15, 22] 23 15 = 8" "chart_row [0, 15, 22] 23 15 = 7"
proof -
  define x where "x = fl (fl (fl (15 - 0) / fl (22 - 0)) * of_int (23 - 1))"
  have "x = fl (fl (15 / 22) * 22)" unfolding x_def by (simp add: fl_numeral)
  also have "\<dots> = 8444249301319679 / 2 ^ 49" unfolding fl_15_22 by (rule fl_15_22_scaled)
  finally have "\<lfloor>x\<rfloor> = \<lfloor>8444249301319679 / 2 ^ 49 :: rat\<rfloor>" by (simp only:)
  also have "\<dots> = 14" by simp
  finally have x: "\<lfloor>x\<rfloor> = 14" .
  have "chart_row_binary64 [0, 15, 22] 23 15 = max 0 (min (23 - 1) (23 - 1 - \<lfloor>x\<rfloor>))"
    unfolding chart_row_binary64_def min_max_example x_def by (simp add: Let_def)
  then show "chart_row_binary64 [0, 15, 22] 23 15 = 8" unfolding x by simp
  show "chart_row [0, 15, 22] 23 15 = 7"
    unfolding chart_row_def min_max_example by (simp add: Let_def)
qed

text \<open>
  The series 0, 15, 22 on a chart of 23 rows: the exact formula puts the value 15 in row
  7, since \<open>15 / 22 * 22\<close> is 15; the code puts it in row 8, since the binary64 quotient
  \<open>15 / 22\<close> times 22 is a little less than 15 and is truncated to 14.
\<close>

theorem line_graph_rounding_counterexample:
  "map_sum id (\<lambda>(lines, _). (lines ! 8 ! 1, lines ! 7 ! 1))
     (create_line_graph terminal_80x24 default_monitor [Fin 0, Fin 15, Fin 22] (Some 3) 23)
     = Inr (BLACK_CIRCLE, SPACE)
   \<and> plot_row 23 (Fin 0) (Fin 22) (Fin 15) = Inr 8
   \<and> chart_row [0, 15, 22] 23 15 = 7"
proof -
  have two: "2 \<le> length [0, 15, 22 :: rat]" by simp
  have h: "(0::int) < 23" "(23::int) \<le> 2 ^ 53" by simp_all
  have recent: "slice_last [0, 15, 22 :: rat] 3 = [0, 15, 22]"
    by (simp add: slice_last_def)
  from line_graph_plot [OF two h doubles_example(2), of terminal_80x24 default_monitor 3]
  obtain lines where l:
    "create_line_graph terminal_80x24 default_monitor (map Fin [0, 15, 22]) (Some 3) 23
       = Inr (lines, default_monitor)"
    and pts: "\<forall>y < nat 23. length (lines ! y) = nat 3
       \<and> (\<forall>x < nat 3. lines ! y ! x =
            (if x < length (slice_last [0, 15, 22 :: rat] 3)
                \<and> chart_row_binary64 [0, 15, 22] 23 (slice_last [0, 15, 22] 3 ! x) = int y
             then BLACK_CIRCLE else SPACE))"
    by blast
  have p8: "lines ! 8 ! 1 = BLACK_CIRCLE"
    using pts [THEN spec, of 8, THEN mp, THEN conjunct2, rule_format, of 1]
    by (simp add: recent chart_row_rounding(1))
  have p7: "lines ! 7 ! 1 = SPACE"
    using pts [THEN spec, of 7, THEN mp, THEN conjunct2, rule_format, of 1]
    by (simp add: recent chart_row_rounding(1))
  have a: "map_sum id (\<lambda>(lines, _). (lines ! 8 ! 1, lines ! 7 ! 1))
     (create_line_graph terminal_80x24 default_monitor [Fin 0, Fin 15, Fin 22] (Some 3) 23)
     = Inr (BLACK_CIRCLE, SPACE)"
    using l p8 p7 by simp
  have "plot_row 23 (Fin (Min (set [0, 15, 22])))
       (if fne (Fin (Max (set [0, 15, 22]))) (Fin (Min (set [0, 15, 22])))
        then fsub (Fin (Max (set [0, 15, 22]))) (Fin (Min (set [0, 15, 22])))
        else Fin 1) (Fin 15) = Inr (chart_row_binary64 [0, 15, 22] 23 15)"
    by (rule plot_row_chart_row(1) [OF _ h doubles_example(2)]) simp
  then have b: "plot_row 23 (Fin 0) (Fin 22) (Fin 15) = Inr 8"
    unfolding min_max_example chart_row_rounding(1) by (simp add: fround_numeral)
  from a b chart_row_rounding(2) show ?thesis by (intro conjI)
qed

text \<open>
  Claim C8, as the code has it. A series of fewer than two points gives \<open>height\<close> empty
  lines. Otherwise, for a chart of at least one and at most \<open>2 ^ 53\<close> rows and a series
  of binary64 numbers of magnitude at most \<open>2 ^ 1022\<close>, the chart has \<open>height\<close> rows of
  \<open>width\<close> cells; column \<open>x\<close> shows the \<open>x\<close>-th of the points \<open>data[-width:]\<close> (the last
  \<open>width\<close> points for a positive width), as a dot in the row that \<open>chart_row_binary64\<close>
  gives its value, and every other cell is a space. That row is \<open>height - 1\<close> less the
  floor of the scaled value, where the two differences, the quotient and the product are
  each rounded to binary64; it lies within the chart, so that the clamp changes nothing.
  For the series 10, 20, 10, 20 and two rows, 10 is drawn in row 1 and 20 in row 0.
\<close>

theorem line_graph_rows:
  assumes "0 < h" "h \<le> 2 ^ 53" "\<forall>x \<in> set xs. finite_double x"
  shows "(length data < 2 \<longrightarrow>
            create_line_graph os self data (Some w) h = Inr (replicate (nat h) [], self))
    \<and> (2 \<le> length xs \<longrightarrow>
          (\<exists>lines. create_line_graph os self (map Fin xs) (Some w) h = Inr (lines, self)
             \<and> length lines = nat h
             \<and> (\<forall>y < nat h. length (lines ! y) = nat w
                  \<and> (\<forall>x < nat w. lines ! y ! x =
                        (if x < length (slice_last xs w)
                            \<and> chart_row_binary64 xs h (slice_last xs w ! x) = int y
                         then BLACK_CIRCLE else SPACE)))))
    \<and> (0 < w \<longrightarrow> slice_last xs w = drop (length xs - nat w) xs)
    \<and> (\<forall>v \<in> set xs.
          chart_row_binary64 xs h v = h - 1 -
            \<lfloor>fl (fl (fl (v - Min (set xs))
                / (if Max (set xs) = Min (set xs) then 1 else fl (Max (set xs) - Min (set xs))))
              * of_int (h - 1))\<rfloor>
          \<and> 0 \<le> chart_row_binary64 xs h v \<and> chart_row_binary64 xs h v \<le> h - 1)
    \<and> chart_row_binary64 [10, 20, 10, 20] 2 10 = 1
    \<and> chart_row_binary64 [10, 20, 10, 20] 2 20 = 0
    \<and> create_line_graph os self [Fin 10, Fin 20, Fin 10, Fin 20] (Some 4) 2
         = Inr ([[SPACE, BLACK_CIRCLE, SPACE, BLACK_CIRCLE],
                 [BLACK_CIRCLE, SPACE, BLACK_CIRCLE, SPACE]], self)"
proof -
  have a: "length data < 2 \<longrightarrow>
            create_line_graph os self data (Some w) h = Inr (replicate (nat h) [], self)"
    by (simp add: line_graph_short)
  have b: "2 \<le> length xs \<longrightarrow>
          (\<exists>lines. create_line_graph os self (map Fin xs) (Some w) h = Inr (lines, self)
             \<and> length lines = nat h
             \<and> (\<forall>y < nat h. length (lines ! y) = nat w
                  \<and> (\<forall>x < nat w. lines ! y ! x =
                        (if x < length (slice_last xs w)
                            \<and> chart_row_binary64 xs h (slice_last xs w ! x) = int y
                         then BLACK_CIRCLE else SPACE))))"
    using line_graph_plot [OF _ assms] by blast
  have c: "0 < w \<longrightarrow> slice_last xs w = drop (length xs - nat w) xs"
    by (simp add: slice_last_def)
  have d: "\<forall>v \<in> set xs.
          chart_row_binary64 xs h v = h - 1 -
            \<lfloor>fl (fl (fl (v - Min (set xs))
                / (if Max (set xs) = Min (set xs) then 1 else fl (Max (set xs) - Min (set xs))))
              * of_int (h - 1))\<rfloor>
          \<and> 0 \<le> chart_row_binary64 xs h v \<and> chart_row_binary64 xs h v \<le> h - 1"
  proof
    fix v assume v: "v \<in> set xs"
    note r = plot_row_chart_row [OF v assms]
    from r(3) have "chart_row_binary64 xs h v \<le> h - 1" by simp
    with r(2,4) show "chart_row_binary64 xs h v = h - 1 -
            \<lfloor>fl (fl (fl (v - Min (set xs))
                / (if Max (set xs) = Min (set xs) then 1 else fl (Max (set xs) - Min (set xs))))
              * of_int (h - 1))\<rfloor>
          \<and> 0 \<le> chart_row_binary64 xs h v \<and> chart_row_binary64 xs h v \<le> h - 1"
      by (intro conjI)
  qed
  note e = chart_row_example line_graph_example [of os self]
  show ?thesis
    by (rule conjI [OF a conjI [OF b conjI [OF c conjI [OF d conjI [OF e(1) conjI [OF e(2) e(3)]]]]]])
qed

theorem line_graph_rows_witness:
  "create_line_graph terminal_80x24 default_monitor [Fin 10] (Some 2) 2
     = Inr ([[], []], default_monitor)
   \<and> (\<exists>lines. create_line_graph terminal_80x24 default_monitor
                  [Fin 10, Fin 20, Fin 10, Fin 20] (Some 2) 2
                 = Inr (lines, default_monitor)
        \<and> length lines = 2 \<and> length (lines ! 0) = 2 \<and> length (lines ! 1) = 2
        \<and> lines ! 0 ! 0 = SPACE \<and> lines ! 0 ! 1 = BLACK_CIRCLE
        \<and> lines ! 1 ! 0 = BLACK_CIRCLE \<and> lines ! 1 ! 1 = SPACE)
   \<and> slice_last [10, 20, 10, 20 :: rat] 2 = [10, 20]"
proof (intro conjI)
  have h: "(0::int) < 2" "(2::int) \<le> 2 ^ 53" by simp_all
  note inst = line_graph_rows [OF h doubles_example(1), of "[Fin 10]" terminal_80x24
    default_monitor 2]
  from inst
  show "create_line_graph terminal_80x24 default_monitor [Fin 10] (Some 2) 2
      = Inr ([[], []], default_monitor)"
    by (simp add: eval_nat_numeral)
  have recent: "slice_last [10, 20, 10, 20 :: rat] 2 = [10, 20]"
    by (simp add: slice_last_def)
  from inst
  obtain lines where l:
    "create_line_graph terminal_80x24 default_monitor (map Fin [10, 20, 10, 20]) (Some 2) 2
       = Inr (lines, default_monitor)"
    "length lines = nat 2"
    and pts: "\<forall>y < nat 2. length (lines ! y) = nat 2
       \<and> (\<forall>x < nat 2. lines ! y ! x =
            (if x < length (slice_last [10, 20, 10, 20 :: rat] 2)
                \<and> chart_row_binary64 [10, 20, 10, 20] 2 (slice_last [10, 20, 10, 20] 2 ! x) = int y
             then BLACK_CIRCLE else SPACE))"
    by auto
  have r0: "length (lines ! 0) = 2" "lines ! 0 ! 0 = SPACE" "lines ! 0 ! 1 = BLACK_CIRCLE"
    using pts [rule_format, of 0] pts [THEN spec, of 0, THEN mp, THEN conjunct2, rule_format, of 0]
      pts [THEN spec, of 0, THEN mp, THEN conjunct2, rule_format, of 1]
    by (simp_all add: recent chart_row_example)
  have r1: "length (lines ! 1) = 2" "lines ! 1 ! 0 = BLACK_CIRCLE" "lines ! 1 ! 1 = SPACE"
    using pts [rule_format, of 1] pts [THEN spec, of 1, THEN mp, THEN conjunct2, rule_format, of 0]
      pts [THEN spec, of 1, THEN mp, THEN conjunct2, rule_format, of 1]
    by (simp_all add: recent chart_row_example)
  from l r0 r1 show "\<exists>lines. create_line_graph terminal_80x24 default_monitor
                  [Fin 10, Fin 20, Fin 10, Fin 20] (Some 2) 2
                 = Inr (lines, default_monitor)
        \<and> length lines = 2 \<and> length (lines ! 0) = 2 \<and> length (lines ! 1) = 2
        \<and> lines ! 0 ! 0 = SPACE \<and> lines ! 0 ! 1 = BLACK_CIRCLE
        \<and> lines ! 1 ! 0 = BLACK_CIRCLE \<and> lines ! 1 ! 1 = SPACE"
    by (intro exI [of _ lines]) simp
  show "slice_last [10, 20, 10, 20 :: rat] 2 = [10, 20]" by (rule recent)
qed

end
